theory Spec2Isabelle
  imports Complex_Main "HOL-Library.Word" "HOL-Library.Monad_Syntax"
begin

text \<open>
  A shallow embedding of the logic of \<open>QuantumCallInterface.jsx\<close>. The file holds
  two successive versions of the component. The token library, the decoding of stored
  messages and \<open>getFormattedHistory\<close> are the same in both; \<open>pcmToWav\<close> and
  \<open>callGeminiApi\<close> belong to the first; the agent helper \<open>askAgentQ\<close>, the
  message handler with its pending confirmation and the reminder poll are those of the
  second.
\<close>

section \<open>Strings\<close>

text \<open>
  JavaScript strings are modelled as \<^typ>\<open>string\<close>, a list of 8-bit characters: the
  text is read as its UTF-8 bytes. Case mapping and white space are those of
  JavaScript on the ASCII range; a byte above 127 is left alone by \<open>toLowerCase\<close>,
  is not white space and is not a line terminator.
\<close>

definition toLowerCase_char :: "char \<Rightarrow> char" where
  "toLowerCase_char c =
     (let n = (of_char c :: nat) in if 65 \<le> n \<and> n \<le> 90 then char_of (n + 32) else c)"

definition toLowerCase :: "string \<Rightarrow> string" where
  "toLowerCase s = map toLowerCase_char s"

definition isWhiteSpace :: "char \<Rightarrow> bool" where
  "isWhiteSpace c = (c \<in> set [CHR 0x09, CHR 0x0A, CHR 0x0B, CHR 0x0C, CHR 0x0D, CHR 0x20])"

definition trim :: "string \<Rightarrow> string" where
  "trim s = rev (dropWhile isWhiteSpace (rev (dropWhile isWhiteSpace s)))"

definition startsWith :: "string \<Rightarrow> string \<Rightarrow> bool" where
  "startsWith s p = (take (length p) s = p)"

fun includes_str :: "string \<Rightarrow> string \<Rightarrow> bool" where
  "includes_str [] p = (p = [])"
| "includes_str (c # cs) p = (startsWith (c # cs) p \<or> includes_str cs p)"

text \<open>
  A template literal prints an integer-valued number in decimal, with a minus sign
  when it is negative (JavaScript switches to exponent notation from \<open>10^21\<close> on,
  which no theorem below depends on).
\<close>

fun show_nat :: "nat \<Rightarrow> string" where
  "show_nat n =
     (if n < 10 then [char_of (48 + n)] else show_nat (n div 10) @ [char_of (48 + n mod 10)])"

declare show_nat.simps [simp del]

definition number_toString :: "int \<Rightarrow> string" where
  "number_toString i = (if i < 0 then CHR ''-'' # show_nat (nat (- i)) else show_nat (nat i))"

section \<open>The token dictionary and \<open>TokenLibrary\<close>\<close>

definition defaultTokenDictionary :: "string list" where
  "defaultTokenDictionary =
     [''Hello.'', ''How are you?'', ''I'' @ [CHR 0x27] @ ''m fine, thanks.'',
      ''What are you working on?'', ''I need help.'', ''Yes.'', ''No.'',
      ''That is correct.'', ''I agree.'', ''Please wait a moment.'',
      ''/ask'', ''/summary'', ''/optimize'']"

text \<open>\<open>Array.prototype.findIndex\<close>: the first position whose element passes, or \<open>-1\<close>.\<close>

fun findIndexFrom :: "nat \<Rightarrow> ('a \<Rightarrow> bool) \<Rightarrow> 'a list \<Rightarrow> int" where
  "findIndexFrom i P [] = - 1"
| "findIndexFrom i P (x # xs) = (if P x then int i else findIndexFrom (Suc i) P xs)"

definition findIndex :: "('a \<Rightarrow> bool) \<Rightarrow> 'a list \<Rightarrow> int" where
  "findIndex P xs = findIndexFrom 0 P xs"

text \<open>\<open>TokenLibrary.lookupToken\<close>; \<open>None\<close> is JavaScript's \<open>null\<close>.\<close>

definition lookupToken :: "string \<Rightarrow> string list \<Rightarrow> int option" where
  "lookupToken phrase dictionary =
     (let index = findIndex (\<lambda>p. toLowerCase p = toLowerCase phrase) dictionary
      in if index \<noteq> - 1 then Some index else None)"

text \<open>
  \<open>TokenLibrary.lookupPhrase\<close>: \<open>dictionary[index]\<close> is \<open>undefined\<close> exactly when
  the (integer) index is not a position of the array.
\<close>

definition lookupPhrase :: "int \<Rightarrow> string list \<Rightarrow> string option" where
  "lookupPhrase index dictionary =
     (if 0 \<le> index \<and> index < int (length dictionary)
      then Some (dictionary ! nat index) else None)"

section \<open>Stored messages and their decoding\<close>

text \<open>
  A document of the chat collection, with the fields the code reads:
  \<open>doc_text\<close> is \<open>data.text\<close> (absent in a tokenized document),
  \<open>doc_tokenIndex\<close> is \<open>data.tokenIndex\<close> when it is a number.
  Documents are kept in timestamp order, the order of the snapshot query.
\<close>

record stored_doc =
  doc_text :: "string option"
  doc_tokenIndex :: "int option"
  doc_isTokenized :: bool
  doc_userId :: string

record message =
  msg_text :: string
  msg_isTokenized :: bool
  msg_userId :: string

definition token_error :: "int \<Rightarrow> string" where
  "token_error i = ''[TOKEN_ERROR: Unknown Index '' @ number_toString i @ '']''"

text \<open>
  The body of the \<open>onSnapshot\<close> mapping. \<open>a || b\<close> on strings yields \<open>b\<close> when
  \<open>a\<close> is \<open>null\<close>, \<open>undefined\<close> or empty.
\<close>

definition decodeMessage :: "string list \<Rightarrow> stored_doc \<Rightarrow> message" where
  "decodeMessage tokenDictionary d =
     (let text0 = (case doc_text d of None \<Rightarrow> [] | Some t \<Rightarrow> t);
          text1 = (case doc_tokenIndex d of
                     Some i \<Rightarrow>
                       if doc_isTokenized d then
                         (case lookupPhrase i tokenDictionary of
                            None \<Rightarrow> token_error i
                          | Some p \<Rightarrow> if p = [] then token_error i else p)
                       else text0
                   | None \<Rightarrow> text0)
      in \<lparr> msg_text = text1, msg_isTokenized = doc_isTokenized d, msg_userId = doc_userId d \<rparr>)"

section \<open>Conversation history\<close>

record history_entry =
  h_sender :: string
  h_text :: string

text \<open>
  \<open>Array.prototype.slice(-n)\<close>: the last \<open>n\<close> elements; \<open>slice(-0)\<close> is
  \<open>slice(0)\<close>, the whole array.
\<close>

definition slice_last :: "nat \<Rightarrow> 'a list \<Rightarrow> 'a list" where
  "slice_last n xs = (if n = 0 then xs else drop (length xs - n) xs)"

definition getFormattedHistory :: "message list \<Rightarrow> string \<Rightarrow> nat \<Rightarrow> history_entry list" where
  "getFormattedHistory currentMessages currentUserId maxTurns =
     (let relevantMessages =
            slice_last maxTurns
              (filter (\<lambda>msg. \<not> msg_isTokenized msg \<and> msg_text msg \<noteq> []) currentMessages)
      in map (\<lambda>msg. \<lparr> h_sender = (if msg_userId msg = currentUserId then ''user'' else ''Agent Q''),
                       h_text = msg_text msg \<rparr>) relevantMessages)"

section \<open>The WAV container: \<open>pcmToWav\<close>\<close>

text \<open>
  An \<open>ArrayBuffer\<close> is a list of bytes. A \<open>DataView\<close> write converts its value
  to the field's width (modulo \<open>2^8\<close>, \<open>2^16\<close>, \<open>2^32\<close>) and throws a
  \<open>RangeError\<close>, here \<open>None\<close>, when the field does not fit in the view; every
  multi-byte write of \<open>pcmToWav\<close> passes \<open>littleEndian = true\<close>.
  \<open>byte_at v k\<close> is byte \<open>k\<close> of \<open>v\<close>, the least significant first.
\<close>

type_synonym byte = "8 word"

definition byte_at :: "nat \<Rightarrow> nat \<Rightarrow> byte" where
  "byte_at v k = of_nat (v div 256 ^ k)"

definition uint16_le :: "nat \<Rightarrow> byte list" where
  "uint16_le v = [byte_at v 0, byte_at v 1]"

definition uint32_le :: "nat \<Rightarrow> byte list" where
  "uint32_le v = [byte_at v 0, byte_at v 1, byte_at v 2, byte_at v 3]"

definition splice :: "byte list \<Rightarrow> nat \<Rightarrow> byte list \<Rightarrow> byte list" where
  "splice view byteOffset bytes =
     take byteOffset view @ bytes @ drop (byteOffset + length bytes) view"

definition setUint8 :: "byte list \<Rightarrow> nat \<Rightarrow> nat \<Rightarrow> byte list option" where
  "setUint8 view byteOffset v =
     (if byteOffset + 1 \<le> length view then Some (splice view byteOffset [byte_at v 0]) else None)"

definition setUint16 :: "byte list \<Rightarrow> nat \<Rightarrow> nat \<Rightarrow> byte list option" where
  "setUint16 view byteOffset v =
     (if byteOffset + 2 \<le> length view then Some (splice view byteOffset (uint16_le v)) else None)"

definition setUint32 :: "byte list \<Rightarrow> nat \<Rightarrow> nat \<Rightarrow> byte list option" where
  "setUint32 view byteOffset v =
     (if byteOffset + 4 \<le> length view then Some (splice view byteOffset (uint32_le v)) else None)"

text \<open>\<open>String.prototype.charCodeAt\<close> on the modelled alphabet.\<close>

definition charCode :: "char \<Rightarrow> nat" where
  "charCode c = of_char c"

fun writeString :: "byte list \<Rightarrow> nat \<Rightarrow> string \<Rightarrow> byte list option" where
  "writeString view offset [] = Some view"
| "writeString view offset (c # cs) =
     do { v \<leftarrow> setUint8 view offset (charCode c); writeString v (Suc offset) cs }"

fun copyBytes :: "byte list \<Rightarrow> nat \<Rightarrow> byte list \<Rightarrow> byte list option" where
  "copyBytes view dataOffset [] = Some view"
| "copyBytes view dataOffset (b # bs) =
     do { v \<leftarrow> setUint8 view dataOffset (unat b); copyBytes v (Suc dataOffset) bs }"

text \<open>
  An \<open>Int16Array\<close> is a window on a buffer: \<open>pcm16.buffer\<close> is the whole underlying
  buffer, \<open>pcm16.byteLength\<close> is twice the number of elements of the window, and
  JavaScript keeps \<open>byteLength \<le> buffer.byteLength\<close>. The caller builds the array
  with \<open>new Int16Array(pcmData)\<close>, a window on the whole buffer.
\<close>

record int16array =
  ta_buffer :: "byte list"
  ta_length :: nat

definition byteLength :: "int16array \<Rightarrow> nat" where
  "byteLength a = 2 * ta_length a"

record blob =
  blob_type :: string
  blob_bytes :: "byte list"

text \<open>
  The running \<open>offset\<close> of the source is written out as the constant it holds at
  each write.
\<close>

definition pcmToWav :: "int16array \<Rightarrow> nat \<Rightarrow> blob option" where
  "pcmToWav pcm16 sampleRate =
     (let numChannels = 1;
          bitsPerSample = 16;
          byteRate = sampleRate * numChannels * (bitsPerSample div 8);
          blockAlign = numChannels * (bitsPerSample div 8);
          dataSize = byteLength pcm16;
          buffer = replicate (44 + dataSize) (0 :: byte)
      in do {
        v \<leftarrow> writeString buffer 0 ''RIFF'';
        v \<leftarrow> setUint32 v 4 (36 + dataSize);
        v \<leftarrow> writeString v 8 ''WAVE'';
        v \<leftarrow> writeString v 12 ''fmt '';
        v \<leftarrow> setUint32 v 16 16;
        v \<leftarrow> setUint16 v 20 1;
        v \<leftarrow> setUint16 v 22 numChannels;
        v \<leftarrow> setUint32 v 24 sampleRate;
        v \<leftarrow> setUint32 v 28 byteRate;
        v \<leftarrow> setUint16 v 32 blockAlign;
        v \<leftarrow> setUint16 v 34 bitsPerSample;
        v \<leftarrow> writeString v 36 ''data'';
        v \<leftarrow> setUint32 v 40 dataSize;
        v \<leftarrow> copyBytes v 44 (ta_buffer pcm16);
        Some \<lparr> blob_type = ''audio/wav'', blob_bytes = v \<rparr>
      })"

text \<open>Reading a little-endian field back, as \<open>DataView.getUint16/32(offset, true)\<close> do.\<close>

definition le_value :: "byte list \<Rightarrow> nat" where
  "le_value bs = foldr (\<lambda>b acc. unat b + 256 * acc) bs 0"

text \<open>The \<open>n\<close> bytes of a blob from position \<open>off\<close> on.\<close>

definition field :: "byte list \<Rightarrow> nat \<Rightarrow> nat \<Rightarrow> byte list" where
  "field bytes off n = take n (drop off bytes)"

text \<open>The bytes \<open>writeString\<close> stores for a string.\<close>

definition ascii :: "string \<Rightarrow> byte list" where
  "ascii s = map (\<lambda>c. byte_at (charCode c) 0) s"

text \<open>
  The header the specification describes: a 44-byte RIFF/WAVE header for mono 16-bit
  PCM, every multi-byte field little-endian.
\<close>

definition wav_header :: "nat \<Rightarrow> nat \<Rightarrow> byte list" where
  "wav_header dataSize sampleRate =
     ascii ''RIFF'' @ uint32_le (36 + dataSize) @ ascii ''WAVE''
     @ ascii ''fmt '' @ uint32_le 16 @ uint16_le 1 @ uint16_le 1
     @ uint32_le sampleRate @ uint32_le (sampleRate * 2) @ uint16_le 2 @ uint16_le 16
     @ ascii ''data'' @ uint32_le dataSize"


section \<open>The retrying gateway: \<open>callGeminiApi\<close>\<close>

text \<open>
  What one \<open>fetch\<close> brings back: it rejects, or it resolves to a response with a
  status and a body. \<open>response.json()\<close> rejects on an unreadable body; otherwise it
  yields the result, of which the code reads \<open>candidates[0].content.parts[0].text\<close>:
  missing or empty, present but rejected by \<open>JSON.parse\<close>, or parsed.
  \<open>response.ok\<close> holds for the statuses 200 to 299.

  \<open>ServiceUnavailable\<close> is the error \<open>Failed to connect to the AI service.\<close>,
  \<open>MaxRetriesReached\<close> is \<open>Maximum retry attempts reached.\<close>; \<open>thrown\<close> are the
  errors raised inside the \<open>try\<close> block, which its \<open>catch\<close> receives.
  \<open>Math.random()\<close> is a parameter, one value per attempt; numbers are real numbers.
\<close>

datatype text_field = Text_missing | Text_unparsable | Text_parsed string
datatype response_body = Body_unreadable | Body string text_field
datatype fetch_result = Fetch_rejected | Response nat response_body

datatype api_value = Raw_result string | Structured_result string
datatype api_error = ServiceUnavailable | MaxRetriesReached
datatype thrown = Status_error nat | Structured_missing | Other_error
datatype attempt_outcome = Retry_after real | Threw thrown | Returned api_value

definition response_ok :: "nat \<Rightarrow> bool" where
  "response_ok status = (200 \<le> status \<and> status \<le> 299)"

definition backoff_delay :: "nat \<Rightarrow> real \<Rightarrow> real" where
  "backoff_delay attempt random = 2 ^ attempt * 1000 + random * 1000"

definition try_attempt :: "fetch_result \<Rightarrow> real \<Rightarrow> bool \<Rightarrow> nat \<Rightarrow> nat \<Rightarrow> attempt_outcome" where
  "try_attempt fetched random responseSchema maxRetries attempt =
     (case fetched of
        Fetch_rejected \<Rightarrow> Threw Other_error
      | Response status body \<Rightarrow>
          if \<not> response_ok status then
            (if status = 429 \<and> attempt < maxRetries - 1
             then Retry_after (backoff_delay attempt random)
             else Threw (Status_error status))
          else
            (case body of
               Body_unreadable \<Rightarrow> Threw Other_error
             | Body result jsonText \<Rightarrow>
                 if responseSchema then
                   (case jsonText of
                      Text_parsed v \<Rightarrow> Returned (Structured_result v)
                    | Text_unparsable \<Rightarrow> Threw Other_error
                    | Text_missing \<Rightarrow> Threw Structured_missing)
                 else Returned (Raw_result result)))"

text \<open>
  The loop, with what it did: the fetches it made and the delays it slept, in order.
  Inside the loop \<open>attempt < maxRetries\<close>, so \<open>maxRetries - 1\<close> is the same on
  \<open>nat\<close> as on JavaScript's numbers.
\<close>

record call_trace =
  outcome :: "api_error + api_value"
  attempts :: nat
  sleeps :: "real list"

function callLoop ::
  "(nat \<Rightarrow> fetch_result) \<Rightarrow> (nat \<Rightarrow> real) \<Rightarrow> bool \<Rightarrow> nat \<Rightarrow> nat \<Rightarrow> call_trace" where
  "callLoop fetch random responseSchema maxRetries attempt =
     (if attempt < maxRetries then
        (case try_attempt (fetch attempt) (random attempt) responseSchema maxRetries attempt of
           Retry_after delay \<Rightarrow>
             (let t = callLoop fetch random responseSchema maxRetries (Suc attempt)
              in t \<lparr> attempts := Suc (attempts t), sleeps := delay # sleeps t \<rparr>)
         | Threw error \<Rightarrow>
             if attempt = maxRetries - 1
             then \<lparr> outcome = Inl ServiceUnavailable, attempts = 1, sleeps = [] \<rparr>
             else (let t = callLoop fetch random responseSchema maxRetries (Suc attempt)
                   in t \<lparr> attempts := Suc (attempts t) \<rparr>)
         | Returned v \<Rightarrow> \<lparr> outcome = Inr v, attempts = 1, sleeps = [] \<rparr>)
      else \<lparr> outcome = Inl MaxRetriesReached, attempts = 0, sleeps = [] \<rparr>)"
  by pat_completeness auto
termination
  by (relation "measure (\<lambda>(fetch, random, responseSchema, maxRetries, attempt). maxRetries - attempt)")
     auto

declare callLoop.simps [simp del]

definition callGeminiApi ::
  "(nat \<Rightarrow> fetch_result) \<Rightarrow> (nat \<Rightarrow> real) \<Rightarrow> bool \<Rightarrow> nat \<Rightarrow> call_trace" where
  "callGeminiApi fetch random responseSchema maxRetries =
     callLoop fetch random responseSchema maxRetries 0"


section \<open>The agent helper: \<open>askAgentQ\<close>\<close>

text \<open>
  The \<open>/remindme\<close> branch matches the query against the regular expression
  \<open>/remindme (\d+)([mh]) "(.+)"/i\<close>. The expression is not anchored, so
  \<open>String.prototype.match\<close> returns the leftmost match: \<open>match_remindme\<close> tries
  \<open>match_here\<close> at each position in turn. At one position: the keyword and the
  space, compared without case (flag \<open>i\<close>); the longest run of digits, which is the
  only one a unit letter can follow; a unit letter \<open>m\<close> or \<open>h\<close> in either case; a
  space and a double quote; then \<open>(.+)"\<close>, greedy, where \<open>.\<close> stops at a line
  terminator: the message runs up to the last double quote before the first line
  terminator and must not be empty. The groups are returned as the code destructures
  them: \<open>value\<close>, \<open>unit\<close>, \<open>msg\<close>. \<open>parseInt\<close> reads the digits in base 10.
\<close>

definition dquote :: char where
  "dquote = CHR 0x22"

definition isDigit :: "char \<Rightarrow> bool" where
  "isDigit c = (c \<in> set ''0123456789'')"

definition isLineTerminator :: "char \<Rightarrow> bool" where
  "isLineTerminator c = (c = CHR 0x0A \<or> c = CHR 0x0D)"

definition parseInt :: "string \<Rightarrow> int" where
  "parseInt ds = foldl (\<lambda>acc c. 10 * acc + (int (of_char c) - 48)) 0 ds"

definition match_message :: "string \<Rightarrow> string option" where
  "match_message r =
     (let body = takeWhile (\<lambda>c. \<not> isLineTerminator c) r
      in case dropWhile (\<lambda>c. c \<noteq> dquote) (rev body) of
           [] \<Rightarrow> None
         | q # pre \<Rightarrow> if pre = [] then None else Some (rev pre))"

definition match_here :: "string \<Rightarrow> (string \<times> char \<times> string) option" where
  "match_here s =
     (if toLowerCase (take 9 s) = ''remindme '' then
        (let digits = takeWhile isDigit (drop 9 s);
             r1 = dropWhile isDigit (drop 9 s)
         in if digits = [] then None
            else (case r1 of
                    [] \<Rightarrow> None
                  | u # r2 \<Rightarrow>
                      if toLowerCase_char u \<in> set ''mh'' \<and> take 2 r2 = [CHR '' '', dquote]
                      then (case match_message (drop 2 r2) of
                              None \<Rightarrow> None
                            | Some msg \<Rightarrow> Some (digits, u, msg))
                      else None))
      else None)"

fun match_remindme :: "string \<Rightarrow> (string \<times> char \<times> string) option" where
  "match_remindme [] = None"
| "match_remindme (c # cs) =
     (case match_here (c # cs) of
        Some m \<Rightarrow> Some m
      | None \<Rightarrow> match_remindme cs)"

text \<open>
  A response is \<open>{type: 'text', content}\<close>, \<open>{type: 'intent', content: {action,
  argument}}\<close> or \<open>{type: 'action', content: {action, details}}\<close>. A reminder is a
  document of the user's \<open>reminders\<close> collection, with the id the store gave it.
\<close>

datatype action_kind = ARCHIVE_CONFIRM | ARCHIVE_SAVE | ARCHIVE_ACCESS

datatype agent_response =
    Text_reply string
  | Intent_reply action_kind string
  | Action_reply action_kind string

datatype request_type = Chat | Intent | Command | Followup

record reminder =
  rem_id :: string
  rem_remindAt :: int
  rem_message :: string

record agent_env =
  env_now :: int
  env_weather_reply :: string
  env_crypto_reply :: string
  env_addDoc_reminder :: "string option"

text \<open>
  What the outside world contributes to one call of \<open>askAgentQ\<close>: the clock
  (\<open>Date.now()\<close>), the text the weather and the price branches build from the
  services they fetch (every path of these two branches returns a text response), and
  what \<open>addDoc\<close> does with a new reminder: it resolves, with the id of the new
  document, or it rejects (\<open>None\<close>). The random delay at the start of the helper has
  no effect on its result.

  \<open>truthy\<close> is JavaScript's truth of a value that is a string or \<open>null\<close>.
  \<open>join\<close> is \<open>Array.prototype.join\<close>.
\<close>

definition truthy :: "string option \<Rightarrow> bool" where
  "truthy x = (case x of None \<Rightarrow> False | Some v \<Rightarrow> v \<noteq> [])"

definition join :: "string \<Rightarrow> string list \<Rightarrow> string" where
  "join sep xs = (case xs of [] \<Rightarrow> [] | y # ys \<Rightarrow> y @ concat (map (\<lambda>z. sep @ z) ys))"

definition usage_reply :: agent_response where
  "usage_reply =
     Text_reply (''Agent Q: Usage: /remindme 10m '' @ [dquote] @ ''your message'' @ [dquote])"

definition help_text :: string where
  "help_text = join [CHR 0x0A]
     [''Agent Q Help:'',
      ''  - /archive: Save chat log (confirms)'',
      ''  - /weather [location]: Live weather'',
      ''  - /crypto [symbol]: Crypto price (USD)'',
      ''  - /summary: Chat summary'',
      ''  - /tokenlist: List available tokens'',
      ''  - /remindme 5m '' @ [dquote] @ ''your text'' @ [dquote] @ '': Persistent reminder'',
      ''  - /admin: Admin info'',
      ''  - /help: Show available commands'']"

definition askAgentQ ::
  "agent_env \<Rightarrow> string \<Rightarrow> request_type \<Rightarrow> history_entry list \<Rightarrow> bool \<Rightarrow> string option
     \<Rightarrow> reminder list \<Rightarrow> agent_response \<times> reminder list" where
  "askAgentQ env userQuery requestType conversationHistory db userId reminders =
     (let lowerQuery = toLowerCase userQuery in
      if requestType = Command \<and> startsWith lowerQuery ''/weather'' then
        (Text_reply (env_weather_reply env), reminders)
      else if requestType = Command \<and> startsWith lowerQuery ''/crypto'' then
        (Text_reply (env_crypto_reply env), reminders)
      else if requestType = Command \<and> startsWith lowerQuery ''/remindme'' then
        (case match_remindme userQuery of
           Some (value, unit, msg) \<Rightarrow>
             if db \<and> truthy userId then
               (let delayMs = (if unit = CHR ''m'' then parseInt value * 60000
                               else parseInt value * 3600000);
                    when = env_now env + delayMs
                in case env_addDoc_reminder env of
                     Some new_id \<Rightarrow>
                       (Text_reply (''Agent Q: I'll remind you in '' @ value @ [unit] @ '': ''
                                     @ [dquote] @ msg @ [dquote] @ ''.''),
                        reminders @ [\<lparr> rem_id = new_id, rem_remindAt = when, rem_message = msg \<rparr>])
                   | None \<Rightarrow> (Text_reply ''Agent Q: Error setting reminder.'', reminders))
             else (usage_reply, reminders)
         | None \<Rightarrow> (usage_reply, reminders))
      else if requestType = Command \<and> startsWith lowerQuery ''/archive'' then
        (Action_reply ARCHIVE_CONFIRM ''Would you like to save the current chat archive? (yes/no)'',
         reminders)
      else if requestType = Command \<and> trim lowerQuery = ''/admin'' then
        (if truthy userId \<and> last (the userId) \<in> set ''13579''
         then (Text_reply ''Agent Q: Welcome, admin! Here is your secret: 42.'', reminders)
         else (Text_reply ''Agent Q: You are not an admin. Access denied.'', reminders))
      else if requestType = Command \<and> startsWith lowerQuery ''/summary'' then
        (let summary =
               (if conversationHistory \<noteq> []
                then join [CHR 0x0A] (map (\<lambda>h. h_sender h @ '': '' @ h_text h) conversationHistory)
                else ''No conversation history.'')
         in (Text_reply (''Agent Q: Here is a summary of recent conversation:'' @ [CHR 0x0A] @ summary),
             reminders))
      else if requestType = Command \<and> lowerQuery = ''/help'' then
        (Text_reply help_text, reminders)
      else if requestType = Command \<and> lowerQuery = ''/tokenlist'' then
        (Text_reply (''Agent Q Tokens: '' @ join '', '' defaultTokenDictionary), reminders)
      else if requestType = Intent \<and> includes_str lowerQuery ''archive'' then
        (Intent_reply ARCHIVE_ACCESS [], reminders)
      else if requestType = Intent \<and> includes_str lowerQuery ''weather'' then
        (Text_reply ''Agent Q: (Intent) Simulated weather is mild and pleasant.'', reminders)
      else if requestType = Followup then
        (if lowerQuery = ''yes'' \<or> lowerQuery = ''y'' then
           (Action_reply ARCHIVE_SAVE ''Archive saved.'', reminders)
         else if lowerQuery = ''no'' \<or> lowerQuery = ''n'' then
           (Text_reply ''Agent Q: Archive not saved.'', reminders)
         else
           (Text_reply (''Agent Q: Please respond '' @ [dquote] @ ''yes'' @ [dquote] @ '' or ''
                         @ [dquote] @ ''no'' @ [dquote] @ ''.''), reminders))
      else if requestType = Chat then
        (if includes_str lowerQuery ''hello'' \<or> includes_str lowerQuery ''hi'' then
           (Text_reply ''Agent Q: Hello! How can I assist you in the Quantum Channel?'', reminders)
         else if includes_str lowerQuery ''tokenlist'' then
           (Text_reply (''Agent Q: Tokens available: '' @ join '', '' defaultTokenDictionary), reminders)
         else (Text_reply (''Agent Q: (Simulated) I received: '' @ userQuery), reminders))
      else (Text_reply ''Agent Q: I am unsure how to handle your request.'', reminders))"

section \<open>The session and the message handler\<close>

definition botUserId :: string where
  "botUserId = ''Agent Q Core '' @ [CHR 0xE2, CHR 0x9C, CHR 0xA8]"

text \<open>
  The state of the component \<open>QVoiceTxtApp\<close>. \<open>st_chat\<close> is the chat collection
  of the durable store, in timestamp order (the state \<open>messages\<close> is its decoding,
  refreshed by the snapshot listener after every change); \<open>st_reminders\<close> is the
  user's reminders collection; \<open>st_firedReminderIds\<close> is the set held by
  \<open>firedReminderIdsRef\<close>. \<open>st_dbInstance\<close> tells whether the store handle is set.

  The reminder poll suspends at each \<open>await\<close>. What is suspended is part of the
  state: \<open>st_polls\<close> holds the snapshots \<open>getDocs\<close> has returned and whose
  \<open>forEach\<close> has not run yet, \<open>st_tasks\<close> the callbacks of \<open>forEach\<close> that
  wait for their \<open>saveMessage\<close> or their \<open>deleteDoc\<close>. \<open>st_delivered\<close> is a
  history variable: the id and the message of every reminder whose utterance the poll
  has appended to the chat, in order.
\<close>

datatype task_stage = Awaiting_save | Awaiting_delete

record reminder_task =
  task_id :: string
  task_message :: string
  task_stage :: task_stage

record session =
  st_userId :: "string option"
  st_dbInstance :: bool
  st_currentMessage :: string
  st_pendingAction :: "agent_response option"
  st_chat :: "stored_doc list"
  st_reminders :: "reminder list"
  st_error :: "string option"
  st_isBotThinking :: bool
  st_firedReminderIds :: "string set"
  st_polls :: "reminder list list"
  st_tasks :: "reminder_task list"
  st_delivered :: "(string \<times> string) list"

text \<open>
  What the outside world contributes to one run of the handler: the environment of the
  agent helper, and whether \<open>addDoc\<close> on the chat collection succeeds for the user's
  message and for the bot's reply.
\<close>

record handler_env =
  env_agent :: agent_env
  env_user_write_ok :: bool
  env_bot_write_ok :: bool

datatype message_content = Token_index int | Plain_text string | Object_content

text \<open>
  \<open>saveMessage(content, senderId, isTokenized)\<close>. The content is a token index, a
  text, or the \<open>content\<close> object of an intent or action response (which reaches
  \<open>saveMessage\<close> for no response \<open>askAgentQ\<close> produces, by
  \<open>askAgentQ_responses\<close> below; a document stores a text only when the content is a
  string and a token index only when it is a number). The timestamp and
  \<open>sessionChoice\<close> fields of the document are not read by any code modelled here and
  are left out. The result of \<open>saveMessage\<close> is ignored by every caller.
\<close>

definition saveMessage :: "bool \<Rightarrow> message_content \<Rightarrow> string \<Rightarrow> bool \<Rightarrow> session \<Rightarrow> session" where
  "saveMessage addDoc_ok content senderId isTokenized s =
     (if \<not> st_dbInstance s \<or> senderId = [] then s
      else
        (let messageToSave =
               (if isTokenized
                then \<lparr> doc_text = None,
                       doc_tokenIndex = (case content of Token_index i \<Rightarrow> Some i | _ \<Rightarrow> None),
                       doc_isTokenized = isTokenized, doc_userId = senderId \<rparr>
                else \<lparr> doc_text = (case content of Plain_text t \<Rightarrow> Some t | _ \<Rightarrow> None),
                       doc_tokenIndex = None,
                       doc_isTokenized = isTokenized, doc_userId = senderId \<rparr>)
         in if addDoc_ok then s \<lparr> st_chat := st_chat s @ [messageToSave] \<rparr>
            else s \<lparr> st_error := Some ''Failed to save message.'' \<rparr>))"

definition response_content :: "agent_response \<Rightarrow> message_content" where
  "response_content res = (case res of Text_reply t \<Rightarrow> Plain_text t | _ \<Rightarrow> Object_content)"

datatype disposition =
    Ignored
  | Tokenized int
  | Asked string request_type "history_entry list"

definition awaiting_confirmation :: "agent_response option \<Rightarrow> bool" where
  "awaiting_confirmation pendingAction =
     (case pendingAction of Some (Action_reply ARCHIVE_CONFIRM details) \<Rightarrow> True | _ \<Rightarrow> False)"

text \<open>
  \<open>handleUserMessage\<close>, run to completion: the handler and the timeout callback it
  schedules (the input is disabled while the callback is pending). Besides the new
  state it returns what it did with the input: nothing, stored it as a token, or called
  \<open>askAgentQ\<close>, with the query, the request type and the history it passed.
  The callback reads \<open>messages\<close> as it was when the handler was created, before the
  user's message was saved.
\<close>

definition followup_callback :: "handler_env \<Rightarrow> string \<Rightarrow> session \<Rightarrow> disposition \<times> session" where
  "followup_callback env userMessage s =
     (let (res, rems) = askAgentQ (env_agent env) userMessage Followup [] False None (st_reminders s);
          s1 = s \<lparr> st_reminders := rems \<rparr>;
          s2 = (case res of
                  Action_reply ARCHIVE_SAVE details \<Rightarrow>
                    saveMessage (env_bot_write_ok env)
                      (Plain_text ''Agent Q: [Simulated] Archive saved!'') botUserId False s1
                | _ \<Rightarrow>
                    saveMessage (env_bot_write_ok env) (response_content res) botUserId False s1)
      in (Asked userMessage Followup [],
          s2 \<lparr> st_pendingAction := None, st_isBotThinking := False \<rparr>))"

definition dispatch_callback ::
  "handler_env \<Rightarrow> message list \<Rightarrow> string \<Rightarrow> string \<Rightarrow> request_type \<Rightarrow> session
     \<Rightarrow> disposition \<times> session" where
  "dispatch_callback env messages userId userMessage userRequestType s =
     (let history = getFormattedHistory messages userId 10;
          (res, rems) = askAgentQ (env_agent env) userMessage userRequestType history
                          (st_dbInstance s) (Some userId) (st_reminders s);
          s1 = s \<lparr> st_reminders := rems \<rparr>;
          s2 = (case res of
                  Action_reply ARCHIVE_CONFIRM details \<Rightarrow>
                    (saveMessage (env_bot_write_ok env) (Plain_text details) botUserId False s1)
                      \<lparr> st_pendingAction := Some res \<rparr>
                | Action_reply ARCHIVE_SAVE details \<Rightarrow>
                    saveMessage (env_bot_write_ok env)
                      (Plain_text ''Agent Q: [Simulated] Archive saved!'') botUserId False s1
                | Intent_reply ARCHIVE_ACCESS argument \<Rightarrow>
                    saveMessage (env_bot_write_ok env)
                      (Plain_text ''Agent Q: [Simulated] Archive retrieved!'') botUserId False s1
                | _ \<Rightarrow>
                    saveMessage (env_bot_write_ok env) (response_content res) botUserId False s1)
      in (Asked userMessage userRequestType history, s2 \<lparr> st_isBotThinking := False \<rparr>))"

definition handleUserMessage ::
  "string list \<Rightarrow> handler_env \<Rightarrow> session \<Rightarrow> disposition \<times> session" where
  "handleUserMessage tokenDictionary env s =
     (let userMessage = trim (st_currentMessage s);
          messages = map (decodeMessage tokenDictionary) (st_chat s)
      in case st_userId s of
        None \<Rightarrow> (Ignored, s)
      | Some userId \<Rightarrow>
          if userMessage = [] \<or> userId = [] then (Ignored, s)
          else
            (let s1 = s \<lparr> st_currentMessage := [], st_error := None \<rparr> in
             case lookupToken (toLowerCase userMessage) tokenDictionary of
               Some tokenIndex \<Rightarrow>
                 (Tokenized tokenIndex,
                  saveMessage (env_user_write_ok env) (Token_index tokenIndex) userId True s1)
             | None \<Rightarrow>
                 if awaiting_confirmation (st_pendingAction s1) then
                   followup_callback env userMessage (s1 \<lparr> st_isBotThinking := True \<rparr>)
                 else
                   (let userRequestType =
                          (if startsWith userMessage ''/'' then Command
                           else if includes_str (toLowerCase userMessage) ''archive''
                                   \<or> includes_str (toLowerCase userMessage) ''weather''
                                then Intent
                           else Chat);
                        s2 = saveMessage (env_user_write_ok env) (Plain_text userMessage) userId False s1
                    in dispatch_callback env messages userId userMessage userRequestType
                         (s2 \<lparr> st_isBotThinking := True \<rparr>))))"

section \<open>The reminder poll\<close>

text \<open>
  \<open>due_query\<close> is the query \<open>orderBy('remindAt'), limit(10)\<close>. \<open>poll_callback\<close>
  is the part of the \<open>forEach\<close> callback that runs before its first \<open>await\<close>:
  the test of the due time and of the fired-id set, and the insertion into that set;
  JavaScript runs it without interruption. The rest of the callback runs when the
  awaited operations complete: first the \<open>saveMessage\<close> of the utterance, then,
  whether or not that write succeeded, the \<open>deleteDoc\<close> of the record.

  An execution of the component is a list of events, in any order and any number:
  the user submits an input; the interval fires and \<open>getDocs\<close> resolves or rejects;
  the \<open>forEach\<close> of a fetched snapshot runs, at some time \<open>now\<close>; the
  \<open>saveMessage\<close> of a waiting callback completes, the write having succeeded or not;
  its \<open>deleteDoc\<close> completes, having succeeded or not. An event that does not
  apply in a state leaves it unchanged.
\<close>

definition reminder_text :: "string \<Rightarrow> string" where
  "reminder_text message = [CHR 0xE2, CHR 0x8F, CHR 0xB0] @ '' Reminder: '' @ message"

definition due_query :: "reminder list \<Rightarrow> reminder list" where
  "due_query remindersCol = take 10 (sort_key rem_remindAt remindersCol)"

definition poll_callback :: "int \<Rightarrow> session \<Rightarrow> reminder \<Rightarrow> session" where
  "poll_callback now s docSnap =
     (if rem_remindAt docSnap \<le> now \<and> rem_id docSnap \<notin> st_firedReminderIds s
      then s \<lparr> st_firedReminderIds := insert (rem_id docSnap) (st_firedReminderIds s),
               st_tasks := st_tasks s @ [\<lparr> task_id = rem_id docSnap,
                                           task_message = rem_message docSnap,
                                           task_stage = Awaiting_save \<rparr>] \<rparr>
      else s)"

definition remove_nth :: "nat \<Rightarrow> 'a list \<Rightarrow> 'a list" where
  "remove_nth k xs = take k xs @ drop (Suc k) xs"

datatype event =
    Submit string handler_env
  | Poll_query bool
  | Poll_forEach nat int
  | Save_done nat bool
  | Delete_done nat bool

definition step :: "string list \<Rightarrow> session \<Rightarrow> event \<Rightarrow> session" where
  "step tokenDictionary s e =
     (case e of
        Submit input env \<Rightarrow>
          snd (handleUserMessage tokenDictionary env (s \<lparr> st_currentMessage := input \<rparr>))
      | Poll_query ok \<Rightarrow>
          if \<not> st_dbInstance s \<or> \<not> truthy (st_userId s) then s
          else if ok then s \<lparr> st_polls := st_polls s @ [due_query (st_reminders s)] \<rparr>
          else s \<lparr> st_error := Some ''Agent Q: Error polling reminders.'' \<rparr>
      | Poll_forEach k now \<Rightarrow>
          if k < length (st_polls s)
          then foldl (poll_callback now) (s \<lparr> st_polls := remove_nth k (st_polls s) \<rparr>)
                 (st_polls s ! k)
          else s
      | Save_done k ok \<Rightarrow>
          if k < length (st_tasks s) \<and> task_stage (st_tasks s ! k) = Awaiting_save then
            (let t = st_tasks s ! k;
                 s1 = saveMessage ok (Plain_text (reminder_text (task_message t))) botUserId False s;
                 s2 = (if st_dbInstance s \<and> ok
                       then s1 \<lparr> st_delivered := st_delivered s1 @ [(task_id t, task_message t)] \<rparr>
                       else s1)
             in s2 \<lparr> st_tasks := (st_tasks s2) [k := t \<lparr> task_stage := Awaiting_delete \<rparr>] \<rparr>)
          else s
      | Delete_done k ok \<Rightarrow>
          if k < length (st_tasks s) \<and> task_stage (st_tasks s ! k) = Awaiting_delete then
            (let t = st_tasks s ! k;
                 s1 = s \<lparr> st_tasks := remove_nth k (st_tasks s) \<rparr>
             in if ok
                then s1 \<lparr> st_reminders := filter (\<lambda>r. rem_id r \<noteq> task_id t) (st_reminders s1) \<rparr>
                else s1)
          else s)"

definition run :: "string list \<Rightarrow> session \<Rightarrow> event list \<Rightarrow> session" where
  "run tokenDictionary s events = foldl (step tokenDictionary) s events"

section \<open>Predicates and values used to state the properties\<close>

text \<open>
  \<open>started\<close>: the component has just been mounted, no reminder has fired and no
  poll is under way. \<open>reminder_doc\<close> is the chat document of a reminder utterance.
  \<open>poll_inv\<close> is the invariant of the poll: the ids delivered and the ids about to
  be delivered are pairwise distinct, they and the ids of all waiting callbacks are in
  the fired-id set, and every delivered reminder has its document in the chat.
  \<open>extends s s'\<close>: \<open>s'\<close> has the poll state of \<open>s\<close> and at least its chat.
\<close>

definition started :: "session \<Rightarrow> bool" where
  "started s = (st_firedReminderIds s = {} \<and> st_polls s = [] \<and> st_tasks s = []
                \<and> st_delivered s = [])"

definition pending_ids :: "session \<Rightarrow> string list" where
  "pending_ids s = map task_id (filter (\<lambda>t. task_stage t = Awaiting_save) (st_tasks s))"

definition reminder_doc :: "string \<Rightarrow> stored_doc" where
  "reminder_doc message =
     \<lparr> doc_text = Some (reminder_text message), doc_tokenIndex = None,
       doc_isTokenized = False, doc_userId = botUserId \<rparr>"

definition poll_inv :: "session \<Rightarrow> bool" where
  "poll_inv s = (distinct (map fst (st_delivered s) @ pending_ids s)
     \<and> set (map fst (st_delivered s)) \<union> task_id ` set (st_tasks s) \<subseteq> st_firedReminderIds s
     \<and> (\<forall>m \<in> snd ` set (st_delivered s). reminder_doc m \<in> set (st_chat s)))"

definition extends :: "session \<Rightarrow> session \<Rightarrow> bool" where
  "extends s s' = (st_firedReminderIds s' = st_firedReminderIds s \<and> st_polls s' = st_polls s
     \<and> st_tasks s' = st_tasks s \<and> st_delivered s' = st_delivered s
     \<and> set (st_chat s) \<subseteq> set (st_chat s'))"

text \<open>
  \<open>remindme_command\<close> is a well-formed command. \<open>remindme_occurs q\<close>: somewhere
  in \<open>q\<close> stands the keyword (in any case) and a space, a number, a unit letter
  \<open>m\<close> or \<open>h\<close> (in any case), a space and a quoted non-empty message free of line
  terminators.
\<close>

definition remindme_command :: "string \<Rightarrow> char \<Rightarrow> string \<Rightarrow> string" where
  "remindme_command ds u msg =
     ''/remindme '' @ ds @ [u] @ [CHR '' '', dquote] @ msg @ [dquote]"

definition remindme_occurs :: "string \<Rightarrow> bool" where
  "remindme_occurs q =
     (\<exists>pre kw ds u msg rest.
        q = pre @ kw @ ds @ [u] @ [CHR '' '', dquote] @ msg @ [dquote] @ rest
      \<and> toLowerCase kw = ''remindme ''
      \<and> ds \<noteq> [] \<and> list_all isDigit ds
      \<and> toLowerCase_char u \<in> set ''mh''
      \<and> msg \<noteq> [] \<and> list_all (\<lambda>c. \<not> isLineTerminator c) msg)"

text \<open>Concrete environments, sessions and executions.\<close>

definition demo_agent_env :: agent_env where
  "demo_agent_env = \<lparr> env_now = 1000, env_weather_reply = ''w'', env_crypto_reply = ''c'',
                env_addDoc_reminder = Some ''r1'' \<rparr>"

definition demo_handler_env :: handler_env where
  "demo_handler_env = \<lparr> env_agent = demo_agent_env, env_user_write_ok = True,
                         env_bot_write_ok = True \<rparr>"

definition confirming_session :: "string \<Rightarrow> session" where
  "confirming_session input =
     \<lparr> st_userId = Some ''u1'', st_dbInstance = True, st_currentMessage = input,
       st_pendingAction = Some (Action_reply ARCHIVE_CONFIRM
          ''Would you like to save the current chat archive? (yes/no)''),
       st_chat = [], st_reminders = [], st_error = None, st_isBotThinking = False,
       st_firedReminderIds = {}, st_polls = [], st_tasks = [], st_delivered = [] \<rparr>"

definition idle_session :: "string \<Rightarrow> session" where
  "idle_session input =
     \<lparr> st_userId = Some ''u1'', st_dbInstance = True, st_currentMessage = input,
       st_pendingAction = None,
       st_chat = [], st_reminders = [], st_error = None, st_isBotThinking = False,
       st_firedReminderIds = {}, st_polls = [], st_tasks = [], st_delivered = [] \<rparr>"

definition demo_messages :: "message list" where
  "demo_messages =
     [\<lparr> msg_text = ''hi'', msg_isTokenized = False, msg_userId = ''u1'' \<rparr>,
      \<lparr> msg_text = ''Hello.'', msg_isTokenized = True, msg_userId = ''u1'' \<rparr>,
      \<lparr> msg_text = [], msg_isTokenized = False, msg_userId = ''u2'' \<rparr>,
      \<lparr> msg_text = ''Agent Q: hello'', msg_isTokenized = False, msg_userId = botUserId \<rparr>]"

definition demo_events :: "event list" where
  "demo_events =
     [Submit (''/remindme 1m '' @ [dquote] @ ''call Sam'' @ [dquote]) demo_handler_env,
      Poll_query True, Poll_query True,
      Poll_forEach 0 70000, Poll_forEach 0 70001,
      Save_done 0 True, Delete_done 0 True]"

section \<open>Properties of the token codec\<close>

lemma findIndexFrom_None:
  "findIndexFrom i P xs = - 1 \<longleftrightarrow> (\<forall>x \<in> set xs. \<not> P x)"
  by (induction xs arbitrary: i) auto

lemma findIndexFrom_Some:
  "findIndexFrom i P xs \<noteq> - 1 \<Longrightarrow>
     \<exists>k < length xs. findIndexFrom i P xs = int (i + k) \<and> P (xs ! k) \<and> (\<forall>j < k. \<not> P (xs ! j))"
proof (induction xs arbitrary: i)
  case Nil
  then show ?case by simp
next
  case (Cons x xs)
  show ?case
  proof (cases "P x")
    case True
    then show ?thesis by (intro exI [of _ 0]) simp
  next
    case False
    with Cons.prems have "findIndexFrom (Suc i) P xs \<noteq> - 1" by simp
    from Cons.IH [OF this] obtain k where k:
      "k < length xs" "findIndexFrom (Suc i) P xs = int (Suc i + k)"
      "P (xs ! k)" "\<forall>j < k. \<not> P (xs ! j)" by blast
    have "\<forall>j < Suc k. \<not> P ((x # xs) ! j)"
      using False k(4) by (auto simp: less_Suc_eq_0_disj)
    with False k show ?thesis
      by (intro exI [of _ "Suc k"]) simp
  qed
qed

lemma lookupToken_None:
  "lookupToken phrase dictionary = None \<longleftrightarrow>
     (\<forall>p \<in> set dictionary. toLowerCase p \<noteq> toLowerCase phrase)"
  by (simp add: lookupToken_def findIndex_def Let_def findIndexFrom_None)

lemma lookupToken_Some:
  assumes "lookupToken phrase dictionary = Some i"
  shows "0 \<le> i \<and> nat i < length dictionary
         \<and> toLowerCase (dictionary ! nat i) = toLowerCase phrase
         \<and> (\<forall>j < nat i. toLowerCase (dictionary ! j) \<noteq> toLowerCase phrase)"
proof -
  let ?P = "\<lambda>p. toLowerCase p = toLowerCase phrase"
  from assms have ne: "findIndexFrom 0 ?P dictionary \<noteq> - 1"
    and i: "i = findIndexFrom 0 ?P dictionary"
    by (auto simp: lookupToken_def findIndex_def Let_def split: if_splits)
  from findIndexFrom_Some [OF ne] i show ?thesis by auto
qed

text \<open>
  C7. Encoding a phrase of the dictionary succeeds, with the first position whose entry
  equals the phrase up to case, and decoding that index gives back an entry equal to
  the phrase up to case. Encoding returns \<open>null\<close> exactly when no entry matches.
\<close>

theorem C7_encode_decode_roundtrip:
  "(p \<in> set dictionary \<longrightarrow>
      (\<exists>i q. lookupToken p dictionary = Some i
           \<and> 0 \<le> i \<and> nat i < length dictionary
           \<and> (\<forall>j < nat i. toLowerCase (dictionary ! j) \<noteq> toLowerCase p)
           \<and> lookupPhrase i dictionary = Some q
           \<and> toLowerCase q = toLowerCase p))
   \<and> (lookupToken phrase dictionary = None \<longleftrightarrow>
        (\<forall>e \<in> set dictionary. toLowerCase e \<noteq> toLowerCase phrase))"
proof (intro conjI impI)
  assume mem: "p \<in> set dictionary"
  then have "lookupToken p dictionary \<noteq> None"
    by (auto simp: lookupToken_None)
  then obtain i where i: "lookupToken p dictionary = Some i" by blast
  from lookupToken_Some [OF i]
  have props: "0 \<le> i" "nat i < length dictionary"
    "toLowerCase (dictionary ! nat i) = toLowerCase p"
    "\<forall>j < nat i. toLowerCase (dictionary ! j) \<noteq> toLowerCase p" by auto
  then have "lookupPhrase i dictionary = Some (dictionary ! nat i)"
    by (simp add: lookupPhrase_def)
  with i props show "\<exists>i q. lookupToken p dictionary = Some i
           \<and> 0 \<le> i \<and> nat i < length dictionary
           \<and> (\<forall>j < nat i. toLowerCase (dictionary ! j) \<noteq> toLowerCase p)
           \<and> lookupPhrase i dictionary = Some q
           \<and> toLowerCase q = toLowerCase p"
    by blast
next
  show "lookupToken phrase dictionary = None \<longleftrightarrow>
        (\<forall>e \<in> set dictionary. toLowerCase e \<noteq> toLowerCase phrase)"
    by (rule lookupToken_None)
qed

theorem C7_encode_decode_roundtrip_witness:
  "''Yes.'' \<in> set defaultTokenDictionary
   \<and> (\<exists>i q. lookupToken ''Yes.'' defaultTokenDictionary = Some i
           \<and> 0 \<le> i \<and> nat i < length defaultTokenDictionary
           \<and> (\<forall>j < nat i. toLowerCase (defaultTokenDictionary ! j) \<noteq> toLowerCase ''Yes.'')
           \<and> lookupPhrase i defaultTokenDictionary = Some q
           \<and> toLowerCase q = toLowerCase ''Yes.'')
   \<and> lookupToken ''yes.'' defaultTokenDictionary = Some 5
   \<and> lookupPhrase 5 defaultTokenDictionary = Some ''Yes.''
   \<and> lookupToken ''yes'' defaultTokenDictionary = None"
proof -
  have 1: "''Yes.'' \<in> set defaultTokenDictionary"
    by (simp add: defaultTokenDictionary_def)
  have 2: "lookupToken ''yes.'' defaultTokenDictionary = Some 5"
    by code_simp
  have 3: "lookupPhrase 5 defaultTokenDictionary = Some ''Yes.''"
    by code_simp
  have 4: "lookupToken ''yes'' defaultTokenDictionary = None"
    by code_simp
  from C7_encode_decode_roundtrip [of "''Yes.''" defaultTokenDictionary "''yes''"] 1 2 3 4
  show ?thesis by blast
qed

section \<open>Properties of message decoding\<close>




section \<open>Properties of the WAV container\<close>

lemma length_splice:
  "byteOffset + length bytes \<le> length view \<Longrightarrow> length (splice view byteOffset bytes) = length view"
  by (simp add: splice_def)

lemma splice_next:
  "length pre = off \<Longrightarrow> length c \<le> length rest \<Longrightarrow>
   splice (pre @ rest) off c = (pre @ c) @ drop (length c) rest"
  by (simp add: splice_def)

lemma splice_splice:
  assumes "off + length (a @ b) \<le> length view"
  shows "splice (splice view off a) (off + length a) b = splice view off (a @ b)"
proof -
  define pre where "pre = take off view"
  define rest where "rest = drop off view"
  have view: "view = pre @ rest" and pre: "length pre = off"
    and rest: "length a + length b \<le> length rest"
    using assms by (simp_all add: pre_def rest_def)
  have 1: "splice view off a = (pre @ a) @ drop (length a) rest"
    unfolding view using pre rest by (intro splice_next) simp_all
  have 2: "splice ((pre @ a) @ drop (length a) rest) (off + length a) b
             = ((pre @ a) @ b) @ drop (length b) (drop (length a) rest)"
    using pre rest by (intro splice_next) simp_all
  have 3: "splice view off (a @ b) = (pre @ a @ b) @ drop (length (a @ b)) rest"
    unfolding view using pre rest by (intro splice_next) simp_all
  show ?thesis
    unfolding 1 2 3 by (simp add: add.commute)
qed

lemma byte_at_unat: "byte_at (unat b) 0 = b"
  by (simp add: byte_at_def)

lemma writeString_splice:
  "offset + length s \<le> length view \<Longrightarrow>
   writeString view offset s = Some (splice view offset (ascii s))"
proof (induction s arbitrary: view offset)
  case Nil
  then show ?case by (simp add: splice_def ascii_def)
next
  case (Cons c cs)
  have "splice (splice view offset [byte_at (charCode c) 0]) (offset + length [byte_at (charCode c) 0]) (ascii cs)
      = splice view offset ([byte_at (charCode c) 0] @ ascii cs)"
    using Cons.prems by (intro splice_splice) (simp add: ascii_def)
  with Cons show ?case
    by (simp add: setUint8_def length_splice ascii_def)
qed

lemma copyBytes_splice:
  "dataOffset + length bs \<le> length view \<Longrightarrow>
   copyBytes view dataOffset bs = Some (splice view dataOffset bs)"
proof (induction bs arbitrary: view dataOffset)
  case Nil
  then show ?case by (simp add: splice_def)
next
  case (Cons b bs)
  have "splice (splice view dataOffset [b]) (dataOffset + length [b]) bs
      = splice view dataOffset ([b] @ bs)"
    using Cons.prems by (intro splice_splice) simp
  with Cons show ?case
    by (simp add: setUint8_def length_splice byte_at_unat)
qed

lemma copyBytes_fail:
  "bs \<noteq> [] \<Longrightarrow> length view < dataOffset + length bs \<Longrightarrow> copyBytes view dataOffset bs = None"
proof (induction bs arbitrary: view dataOffset)
  case Nil
  then show ?case by simp
next
  case (Cons b bs)
  show ?case
  proof (cases "dataOffset < length view")
    case False
    then show ?thesis by (simp add: setUint8_def)
  next
    case True
    with Cons.prems have "bs \<noteq> []" by auto
    with Cons True show ?thesis by (simp add: setUint8_def length_splice)
  qed
qed

lemma le16:
  "(v::nat) mod 256 + 256 * (v div 256 mod 256) = v mod 65536"
  using mod_mult2_eq [of v 256 256] by simp

lemma le32:
  "(v::nat) mod 256 + 256 * (v div 256 mod 256) + 65536 * (v div 65536 mod 256)
     + 16777216 * (v div 16777216 mod 256) = v mod 4294967296"
proof -
  have a: "v mod 65536 = v mod 256 + 256 * (v div 256 mod 256)"
    using le16 [of v] by simp
  have b: "v mod 16777216 = v mod 65536 + 65536 * (v div 65536 mod 256)"
    using mod_mult2_eq [of v 65536 256] by simp
  have c: "v mod 4294967296 = v mod 16777216 + 16777216 * (v div 16777216 mod 256)"
    using mod_mult2_eq [of v 16777216 256] by simp
  from a b c show ?thesis by simp
qed

lemma unat_byte_at: "unat (byte_at v k) = v div 256 ^ k mod 256"
  by (simp add: byte_at_def unat_of_nat)

lemma le_value_uint16: "le_value (uint16_le v) = v mod 65536"
  using le16 [of v] by (simp add: le_value_def uint16_le_def unat_byte_at)

lemma le_value_uint32: "le_value (uint32_le v) = v mod 4294967296"
  using le32 [of v] by (simp add: le_value_def uint32_le_def unat_byte_at)

lemma length_le [simp]: "length (uint32_le v) = 4" "length (uint16_le v) = 2"
  by (simp_all add: uint32_le_def uint16_le_def)

lemma length_ascii [simp]: "length (ascii s) = length s"
  by (simp add: ascii_def)

lemma length_wav_header: "length (wav_header d sr) = 44"
  by (simp add: wav_header_def)

lemma splice_append:
  "length a \<le> off \<Longrightarrow> splice (a @ b) off c = a @ splice b (off - length a) c"
  by (simp add: splice_def)

lemma splice_replicate:
  "length c \<le> r \<Longrightarrow> splice (replicate r z) 0 c = c @ replicate (r - length c) z"
  by (simp add: splice_def)

lemma pcmToWav_layout:
  assumes "length (ta_buffer p) = byteLength p"
  shows "pcmToWav p sampleRate
    = Some \<lparr> blob_type = ''audio/wav'',
             blob_bytes = wav_header (byteLength p) sampleRate @ ta_buffer p \<rparr>"
  using assms
  by (simp add: pcmToWav_def Let_def wav_header_def writeString_splice copyBytes_splice
        setUint32_def setUint16_def splice_append splice_replicate
      del: writeString.simps copyBytes.simps)


lemma pcmToWav_subview:
  assumes "byteLength p < length (ta_buffer p)"
  shows "pcmToWav p sampleRate = None"
proof -
  have "ta_buffer p \<noteq> []" using assms by auto
  then have "copyBytes (wav_header (byteLength p) sampleRate @ replicate (byteLength p) 0) 44 (ta_buffer p) = None"
    using assms by (intro copyBytes_fail) (simp_all add: length_wav_header)
  then show ?thesis
    by (simp add: pcmToWav_def Let_def wav_header_def writeString_splice
        setUint32_def setUint16_def splice_append splice_replicate
      del: writeString.simps copyBytes.simps)
qed

lemma wav_header_fields:
  "field (wav_header n sr @ d) 0 4 = ascii ''RIFF''"
  "field (wav_header n sr @ d) 4 4 = uint32_le (36 + n)"
  "field (wav_header n sr @ d) 8 4 = ascii ''WAVE''"
  "field (wav_header n sr @ d) 12 4 = ascii ''fmt ''"
  "field (wav_header n sr @ d) 16 4 = uint32_le 16"
  "field (wav_header n sr @ d) 20 2 = uint16_le 1"
  "field (wav_header n sr @ d) 22 2 = uint16_le 1"
  "field (wav_header n sr @ d) 24 4 = uint32_le sr"
  "field (wav_header n sr @ d) 28 4 = uint32_le (sr * 2)"
  "field (wav_header n sr @ d) 32 2 = uint16_le 2"
  "field (wav_header n sr @ d) 34 2 = uint16_le 16"
  "field (wav_header n sr @ d) 36 4 = ascii ''data''"
  "field (wav_header n sr @ d) 40 4 = uint32_le n"
  "drop 44 (wav_header n sr @ d) = d"
  "take 44 (wav_header n sr @ d) = wav_header n sr"
  by (simp_all add: field_def wav_header_def)

text \<open>
  C6, as the code has it. For a PCM array that is a window on its whole buffer and any
  sample rate, \<open>pcmToWav\<close> returns an \<open>audio/wav\<close> blob of \<open>44 + dataSize\<close> bytes:
  the 44-byte header followed by the PCM bytes unchanged. Every multi-byte field is
  little-endian and holds its value modulo \<open>2^32\<close>: the data size is the PCM byte
  length, the RIFF chunk size is \<open>36 + dataSize\<close>, the byte rate is
  \<open>sampleRate * 2\<close>, and these are the exact values when the byte length is below
  \<open>2^32 - 36\<close> and the sample rate below \<open>2^31\<close>; the block alignment is 2.
\<close>

theorem C6_pcmToWav_header:
  assumes "length (ta_buffer pcm16) = byteLength pcm16"
  shows "\<exists>b. pcmToWav pcm16 sampleRate = Some b
     \<and> blob_type b = ''audio/wav''
     \<and> length (blob_bytes b) = 44 + byteLength pcm16
     \<and> take 44 (blob_bytes b) = wav_header (byteLength pcm16) sampleRate
     \<and> drop 44 (blob_bytes b) = ta_buffer pcm16
     \<and> field (blob_bytes b) 0 4 = ascii ''RIFF''
     \<and> field (blob_bytes b) 4 4 = uint32_le (36 + byteLength pcm16)
     \<and> field (blob_bytes b) 8 4 = ascii ''WAVE''
     \<and> field (blob_bytes b) 12 4 = ascii ''fmt ''
     \<and> field (blob_bytes b) 24 4 = uint32_le sampleRate
     \<and> field (blob_bytes b) 28 4 = uint32_le (sampleRate * 2)
     \<and> field (blob_bytes b) 36 4 = ascii ''data''
     \<and> field (blob_bytes b) 40 4 = uint32_le (byteLength pcm16)
     \<and> le_value (field (blob_bytes b) 4 4) = (36 + byteLength pcm16) mod 2 ^ 32
     \<and> le_value (field (blob_bytes b) 16 4) = 16
     \<and> le_value (field (blob_bytes b) 20 2) = 1
     \<and> le_value (field (blob_bytes b) 22 2) = 1
     \<and> le_value (field (blob_bytes b) 24 4) = sampleRate mod 2 ^ 32
     \<and> le_value (field (blob_bytes b) 28 4) = (sampleRate * 2) mod 2 ^ 32
     \<and> le_value (field (blob_bytes b) 32 2) = 2
     \<and> le_value (field (blob_bytes b) 34 2) = 16
     \<and> le_value (field (blob_bytes b) 40 4) = byteLength pcm16 mod 2 ^ 32
     \<and> (byteLength pcm16 < 2 ^ 32 - 36 \<longrightarrow>
          le_value (field (blob_bytes b) 40 4) = byteLength pcm16
        \<and> le_value (field (blob_bytes b) 4 4) = 36 + byteLength pcm16)
     \<and> (sampleRate < 2 ^ 31 \<longrightarrow>
          le_value (field (blob_bytes b) 24 4) = sampleRate
        \<and> le_value (field (blob_bytes b) 28 4) = sampleRate * 2)"
proof -
  let ?n = "byteLength pcm16"
  let ?bytes = "wav_header ?n sampleRate @ ta_buffer pcm16"
  have len: "length ?bytes = 44 + ?n"
    using assms by (simp add: length_wav_header)
  show ?thesis
    unfolding pcmToWav_layout [OF assms]
    using len
    by (simp add: wav_header_fields le_value_uint32 le_value_uint16 length_wav_header)
qed

theorem C6_pcmToWav_header_witness:
  "\<exists>b. pcmToWav \<lparr> ta_buffer = [], ta_length = 0 \<rparr> 16000 = Some b
     \<and> blob_type b = ''audio/wav''
     \<and> length (blob_bytes b) = 44
     \<and> le_value (field (blob_bytes b) 40 4) = 0
     \<and> le_value (field (blob_bytes b) 4 4) = 36
     \<and> le_value (field (blob_bytes b) 24 4) = 16000
     \<and> le_value (field (blob_bytes b) 28 4) = 32000
     \<and> le_value (field (blob_bytes b) 32 2) = 2"
  using C6_pcmToWav_header [of "\<lparr> ta_buffer = [], ta_length = 0 \<rparr>" 16000]
  by (auto simp: byteLength_def)

text \<open>
  The claim C6 as stated, for every sample rate and every PCM array, fails twice.
  At the sample rate \<open>2^31\<close> the byte-rate field of the header holds 0, not
  \<open>sampleRate * 2\<close>. For an array that is a window on part of a larger buffer the
  copy loop runs over the whole buffer and the write past the end throws.
\<close>

theorem C6_pcmToWav_counterexample:
  "(\<exists>b. pcmToWav \<lparr> ta_buffer = [], ta_length = 0 \<rparr> 2147483648 = Some b
       \<and> le_value (field (blob_bytes b) 28 4) = 0
       \<and> le_value (field (blob_bytes b) 28 4) \<noteq> 2147483648 * 2)
   \<and> pcmToWav \<lparr> ta_buffer = [1, 2, 3, 4], ta_length = 1 \<rparr> 16000 = None"
proof -
  have "field (wav_header 0 2147483648) 28 4 = uint32_le (2147483648 * 2)"
    using wav_header_fields(9) [of 0 2147483648 "[]"] by simp
  then have "\<exists>b. pcmToWav \<lparr> ta_buffer = [], ta_length = 0 \<rparr> 2147483648 = Some b
       \<and> le_value (field (blob_bytes b) 28 4) = 0
       \<and> le_value (field (blob_bytes b) 28 4) \<noteq> 2147483648 * 2"
    by (simp add: pcmToWav_layout byteLength_def le_value_uint32)
  moreover have "pcmToWav \<lparr> ta_buffer = [1, 2, 3, 4], ta_length = 1 \<rparr> 16000 = None"
    by (simp add: pcmToWav_subview byteLength_def)
  ultimately show ?thesis by blast
qed

section \<open>Properties of the retrying gateway\<close>

lemma callLoop_429:
  assumes "\<forall>a < maxRetries. \<exists>b. fetch a = Response 429 b"
    and "attempt < maxRetries"
  shows "callLoop fetch random responseSchema maxRetries attempt
     = \<lparr> outcome = Inl ServiceUnavailable, attempts = maxRetries - attempt,
         sleeps = map (\<lambda>a. backoff_delay a (random a)) [attempt ..< maxRetries - 1] \<rparr>"
  using assms
proof (induction "maxRetries - attempt" arbitrary: attempt)
  case 0
  then show ?case by simp
next
  case (Suc k)
  from Suc.prems obtain b where b: "fetch attempt = Response 429 b" by blast
  show ?case
  proof (cases "attempt = maxRetries - 1")
    case True
    with Suc.prems b show ?thesis
      by (subst callLoop.simps) (simp add: try_attempt_def response_ok_def)
  next
    case False
    with Suc.prems have lt: "attempt < maxRetries - 1" "Suc attempt < maxRetries" by auto
    from Suc.hyps have k: "k = maxRetries - Suc attempt" by simp
    note IH = Suc.hyps(1) [OF k Suc.prems(1) lt(2)]
    have upt: "[attempt ..< maxRetries - Suc 0] = attempt # [Suc attempt ..< maxRetries - Suc 0]"
      using lt by (simp add: upt_conv_Cons)
    from b lt Suc.prems show ?thesis
      by (subst callLoop.simps) (simp add: try_attempt_def response_ok_def IH upt Suc_diff_Suc)
  qed
qed

lemma backoff_mono:
  assumes "0 \<le> r" "r < 1" "0 \<le> r'" "a < a'"
  shows "backoff_delay a r \<le> backoff_delay a' r'"
proof -
  have "(2::real) ^ Suc a \<le> 2 ^ a'" using assms(4) by (intro power_increasing) auto
  then have A: "2 * (2::real) ^ a \<le> 2 ^ a'" by simp
  have B: "1 \<le> (2::real) ^ a" by (rule one_le_power) simp
  from A B have "2 ^ a * 1000 + 1000 \<le> (2::real) ^ a' * 1000" by linarith
  with assms show ?thesis by (simp add: backoff_delay_def)
qed

lemma sorted_backoff:
  assumes "\<forall>a. 0 \<le> random a \<and> random a < 1"
  shows "sorted (map (\<lambda>a. backoff_delay a (random a)) [m ..< n])"
  unfolding sorted_map
  by (rule sorted_wrt_mono_rel [of _ "(<)"])
     (use assms in \<open>auto intro!: backoff_mono simp: sorted_wrt_upt\<close>)


text \<open>
  C4. When every attempt is answered with HTTP 429, a call with \<open>maxRetries \<ge> 1\<close>
  makes \<open>maxRetries\<close> fetches, that is \<open>maxRetries - 1\<close> retries, sleeps
  \<open>2^attempt * 1000 + random * 1000\<close> milliseconds before each retry, and fails with
  \<open>ServiceUnavailable\<close>. With every random value in \<open>[0, 1)\<close> each delay lies in
  \<open>[2^attempt * 1000, 2^attempt * 1000 + 1000)\<close> and the delays never decrease.
\<close>

theorem C4_sustained_429:
  assumes "0 < maxRetries"
    and "\<forall>a < maxRetries. \<exists>b. fetch a = Response 429 b"
  shows "outcome (callGeminiApi fetch random responseSchema maxRetries) = Inl ServiceUnavailable
     \<and> attempts (callGeminiApi fetch random responseSchema maxRetries) = maxRetries
     \<and> sleeps (callGeminiApi fetch random responseSchema maxRetries)
         = map (\<lambda>a. 2 ^ a * 1000 + random a * 1000) [0 ..< maxRetries - 1]
     \<and> length (sleeps (callGeminiApi fetch random responseSchema maxRetries)) = maxRetries - 1
     \<and> ((\<forall>a. 0 \<le> random a \<and> random a < 1) \<longrightarrow>
          sorted (sleeps (callGeminiApi fetch random responseSchema maxRetries))
        \<and> (\<forall>i < maxRetries - 1.
              2 ^ i * 1000 \<le> sleeps (callGeminiApi fetch random responseSchema maxRetries) ! i
            \<and> sleeps (callGeminiApi fetch random responseSchema maxRetries) ! i
                < 2 ^ i * 1000 + 1000))"
proof -
  let ?t = "callGeminiApi fetch random responseSchema maxRetries"
  have t: "?t = \<lparr> outcome = Inl ServiceUnavailable, attempts = maxRetries,
         sleeps = map (\<lambda>a. backoff_delay a (random a)) [0 ..< maxRetries - 1] \<rparr>"
    unfolding callGeminiApi_def using callLoop_429 [OF assms(2) assms(1)] by simp
  have s: "sleeps ?t = map (\<lambda>a. 2 ^ a * 1000 + random a * 1000) [0 ..< maxRetries - 1]"
    by (simp add: t backoff_delay_def)
  have sorted: "(\<forall>a. 0 \<le> random a \<and> random a < 1) \<longrightarrow> sorted (sleeps ?t)"
    using sorted_backoff [of random 0 "maxRetries - 1"] by (simp add: t)
  have bounds: "(\<forall>a. 0 \<le> random a \<and> random a < 1) \<longrightarrow>
      (\<forall>i < maxRetries - 1. 2 ^ i * 1000 \<le> sleeps ?t ! i \<and> sleeps ?t ! i < 2 ^ i * 1000 + 1000)"
    by (simp add: s)
  from t s sorted bounds show ?thesis by simp
qed

theorem C4_sustained_429_witness:
  "outcome (callGeminiApi (\<lambda>a. Response 429 Body_unreadable) (\<lambda>a. 1 / 2) False 3)
      = Inl ServiceUnavailable
   \<and> attempts (callGeminiApi (\<lambda>a. Response 429 Body_unreadable) (\<lambda>a. 1 / 2) False 3) = 3
   \<and> sleeps (callGeminiApi (\<lambda>a. Response 429 Body_unreadable) (\<lambda>a. 1 / 2) False 3)
      = [1500, 2500]
   \<and> sorted (sleeps (callGeminiApi (\<lambda>a. Response 429 Body_unreadable) (\<lambda>a. 1 / 2) False 3))"
proof -
  have upt: "[0 ..< 2] = [0, Suc 0]" by (simp add: upt_rec)
  show ?thesis
    using C4_sustained_429 [of 3 "\<lambda>a. Response 429 Body_unreadable" "\<lambda>a. 1 / 2" False]
    by (simp add: upt)
qed

text \<open>
  C2 on the code. A response with status 500 on the first of three attempts is not
  the end of the call: the error raised for it is caught by the loop's own
  \<open>catch\<close>, the second attempt is made at once, and its success is what the call
  returns. When all three attempts are answered with 500 the call fails with
  \<open>ServiceUnavailable\<close> after three fetches, and the status is not part of the error.
\<close>

theorem C2_error_status_is_retried:
  "callGeminiApi
      (\<lambda>a. if a = 0 then Response 500 Body_unreadable else Response 200 (Body ''{}'' Text_missing))
      (\<lambda>a. 1 / 2) False 3
     = \<lparr> outcome = Inr (Raw_result ''{}''), attempts = 2, sleeps = [] \<rparr>
   \<and> callGeminiApi (\<lambda>a. Response 500 Body_unreadable) (\<lambda>a. 1 / 2) False 3
     = \<lparr> outcome = Inl ServiceUnavailable, attempts = 3, sleeps = [] \<rparr>"
  by (simp add: callGeminiApi_def callLoop.simps try_attempt_def response_ok_def)

section \<open>Properties of the message handler\<close>

lemma toLowerCase_idem: "toLowerCase (toLowerCase s) = toLowerCase s"
  by (simp add: toLowerCase_def toLowerCase_char_def Let_def)

lemma lookupToken_lower: "lookupToken (toLowerCase m) dict = lookupToken m dict"
  by (simp add: lookupToken_def toLowerCase_idem)

text \<open>
  Every response of \<open>askAgentQ\<close> is a text, the \<open>ARCHIVE_ACCESS\<close> intent, or an
  \<open>ARCHIVE_CONFIRM\<close> or \<open>ARCHIVE_SAVE\<close> action.
\<close>

lemma askAgentQ_responses:
  "(\<exists>t. fst (askAgentQ env q rt history db userId reminders) = Text_reply t)
   \<or> fst (askAgentQ env q rt history db userId reminders) = Intent_reply ARCHIVE_ACCESS []
   \<or> (\<exists>d. fst (askAgentQ env q rt history db userId reminders) = Action_reply ARCHIVE_CONFIRM d)
   \<or> (\<exists>d. fst (askAgentQ env q rt history db userId reminders) = Action_reply ARCHIVE_SAVE d)"
proof -
  define shape where "shape r \<longleftrightarrow>
      (\<exists>t. r = Text_reply t) \<or> r = Intent_reply ARCHIVE_ACCESS []
      \<or> (\<exists>d. r = Action_reply ARCHIVE_CONFIRM d) \<or> (\<exists>d. r = Action_reply ARCHIVE_SAVE d)"
    for r :: agent_response
  have 1: "shape (fst (Text_reply t, rs))" for t and rs :: "reminder list"
    by (simp add: shape_def)
  have 2: "shape (fst (Intent_reply ARCHIVE_ACCESS [], rs))" for rs :: "reminder list"
    by (simp add: shape_def)
  have 3: "shape (fst (Action_reply ARCHIVE_CONFIRM d, rs))" for d and rs :: "reminder list"
    by (simp add: shape_def)
  have 4: "shape (fst (Action_reply ARCHIVE_SAVE d, rs))" for d and rs :: "reminder list"
    by (simp add: shape_def)
  have ifI: "shape (fst a) \<Longrightarrow> shape (fst b) \<Longrightarrow> shape (fst (if c then a else b))"
    for a b :: "agent_response \<times> reminder list" and c
    by simp
  have optI: "shape (fst a) \<Longrightarrow> (\<And>x. shape (fst (f x))) \<Longrightarrow> shape (fst (case_option a f m))"
    for a :: "agent_response \<times> reminder list" and f and m :: "'x option"
    by (cases m) simp_all
  have prodI: "(\<And>x y z. shape (fst (f x y z))) \<Longrightarrow> shape (fst (case p of (x, y, z) \<Rightarrow> f x y z))"
    for f :: "'x \<Rightarrow> 'y \<Rightarrow> 'z \<Rightarrow> agent_response \<times> reminder list" and p
    by (cases p) simp
  have "shape (fst (askAgentQ env q rt history db userId reminders))"
    unfolding askAgentQ_def Let_def usage_reply_def
    by (intro ifI optI prodI 1 2 3 4)
  then show ?thesis unfolding shape_def .
qed

lemma askAgentQ_followup:
  "snd (askAgentQ env q Followup history db userId reminders) = reminders"
  unfolding askAgentQ_def Let_def by simp

lemma st_reminders_saveMessage [simp]:
  "st_reminders (saveMessage ok c sender tok s) = st_reminders s"
  "st_pendingAction (saveMessage ok c sender tok s) = st_pendingAction s"
  by (simp_all add: saveMessage_def Let_def)

lemma followup_callback_facts:
  "fst (followup_callback env m s) = Asked m Followup []"
  "st_pendingAction (snd (followup_callback env m s)) = None"
  "st_reminders (snd (followup_callback env m s)) = st_reminders s"
proof -
  obtain res rems where r: "askAgentQ (env_agent env) m Followup [] False None (st_reminders s) = (res, rems)"
    by (cases "askAgentQ (env_agent env) m Followup [] False None (st_reminders s)")
  have rems: "rems = st_reminders s"
    using askAgentQ_followup [of "env_agent env" m "[]" False None "st_reminders s"] r by simp
  show "fst (followup_callback env m s) = Asked m Followup []"
    by (simp add: followup_callback_def r Let_def)
  show "st_pendingAction (snd (followup_callback env m s)) = None"
    by (simp add: followup_callback_def r Let_def)
  show "st_reminders (snd (followup_callback env m s)) = st_reminders s"
  proof (cases res)
    case (Text_reply t)
    then show ?thesis by (simp add: followup_callback_def r rems Let_def)
  next
    case (Intent_reply k a)
    then show ?thesis by (simp add: followup_callback_def r rems Let_def)
  next
    case (Action_reply k d)
    then show ?thesis by (cases k) (simp_all add: followup_callback_def r rems Let_def)
  qed
qed

lemma dispatch_callback_fst:
  "fst (dispatch_callback env msgs u m t s) = Asked m t (getFormattedHistory msgs u 10)"
  by (simp add: dispatch_callback_def Let_def split_beta)

lemma handle_token:
  assumes "st_userId s = Some userId" "userId \<noteq> []"
    "trim (st_currentMessage s) = userMessage" "userMessage \<noteq> []"
    "lookupToken userMessage dict = Some i"
  shows "handleUserMessage dict env s =
     (Tokenized i, saveMessage (env_user_write_ok env) (Token_index i) userId True
                     (s \<lparr> st_currentMessage := [], st_error := None \<rparr>))"
  using assms by (simp add: handleUserMessage_def Let_def lookupToken_lower)

lemma handle_followup:
  assumes "st_userId s = Some userId" "userId \<noteq> []"
    "trim (st_currentMessage s) = userMessage" "userMessage \<noteq> []"
    "lookupToken userMessage dict = None"
    "awaiting_confirmation (st_pendingAction s)"
  shows "handleUserMessage dict env s =
     followup_callback env userMessage
       (s \<lparr> st_currentMessage := [], st_error := None, st_isBotThinking := True \<rparr>)"
  using assms by (simp add: handleUserMessage_def Let_def lookupToken_lower)

lemma handle_dispatch:
  assumes "st_userId s = Some userId" "userId \<noteq> []"
    "trim (st_currentMessage s) = userMessage" "userMessage \<noteq> []"
    "lookupToken userMessage dict = None"
    "\<not> awaiting_confirmation (st_pendingAction s)"
  shows "handleUserMessage dict env s =
     dispatch_callback env (map (decodeMessage dict) (st_chat s)) userId userMessage
       (if startsWith userMessage ''/'' then Command
        else if includes_str (toLowerCase userMessage) ''archive''
                \<or> includes_str (toLowerCase userMessage) ''weather''
             then Intent
        else Chat)
       ((saveMessage (env_user_write_ok env) (Plain_text userMessage) userId False
           (s \<lparr> st_currentMessage := [], st_error := None \<rparr>)) \<lparr> st_isBotThinking := True \<rparr>)"
  using assms by (simp add: handleUserMessage_def Let_def lookupToken_lower)






lemma handle_asked_history:
  assumes "handleUserMessage dict env s = (Asked q t h, s')"
  shows "(t = Followup \<and> h = [])
       \<or> (\<exists>userId. st_userId s = Some userId
            \<and> h = getFormattedHistory (map (decodeMessage dict) (st_chat s)) userId 10)"
proof (cases "st_userId s")
  case None
  with assms show ?thesis by (simp add: handleUserMessage_def)
next
  case (Some userId)
  let ?m = "trim (st_currentMessage s)"
  show ?thesis
  proof (cases "?m = [] \<or> userId = []")
    case True
    with assms Some show ?thesis by (auto simp: handleUserMessage_def)
  next
    case False
    then have ne: "userId \<noteq> []" "?m \<noteq> []" by simp_all
    show ?thesis
    proof (cases "lookupToken ?m dict")
      case (Some i)
      from handle_token [OF \<open>st_userId s = Some userId\<close> ne(1) refl ne(2) Some] assms
      show ?thesis by simp
    next
      case None
      show ?thesis
      proof (cases "awaiting_confirmation (st_pendingAction s)")
        case True
        from handle_followup [OF \<open>st_userId s = Some userId\<close> ne(1) refl ne(2) None True] assms
        have "fst (followup_callback env ?m
                (s \<lparr> st_currentMessage := [], st_error := None, st_isBotThinking := True \<rparr>))
              = Asked q t h"
          by simp
        then show ?thesis by (simp add: followup_callback_facts)
      next
        case False
        from handle_dispatch [OF \<open>st_userId s = Some userId\<close> ne(1) refl ne(2) None False] assms
        have "fst (dispatch_callback env (map (decodeMessage dict) (st_chat s)) userId ?m
                (if startsWith ?m ''/'' then Command
                 else if includes_str (toLowerCase ?m) ''archive''
                         \<or> includes_str (toLowerCase ?m) ''weather''
                      then Intent
                 else Chat)
                ((saveMessage (env_user_write_ok env) (Plain_text ?m) userId False
                   (s \<lparr> st_currentMessage := [], st_error := None \<rparr>))
                     \<lparr> st_isBotThinking := True \<rparr>))
              = Asked q t h"
          by simp
        then have "h = getFormattedHistory (map (decodeMessage dict) (st_chat s)) userId 10"
          by (simp only: dispatch_callback_fst disposition.inject)
        with \<open>st_userId s = Some userId\<close> show ?thesis by simp
      qed
    qed
  qed
qed

lemma getFormattedHistory_entries:
  assumes "e \<in> set (getFormattedHistory msgs uid n)"
  shows "\<exists>m \<in> set msgs. \<not> msg_isTokenized m \<and> msg_text m \<noteq> [] \<and> h_text e = msg_text m
           \<and> (h_sender e = ''user'' \<longleftrightarrow> msg_userId m = uid)"
proof -
  let ?rel = "filter (\<lambda>msg. \<not> msg_isTokenized msg \<and> msg_text msg \<noteq> []) msgs"
  from assms obtain m where m: "m \<in> set (slice_last n ?rel)"
    and e: "e = \<lparr> h_sender = (if msg_userId m = uid then ''user'' else ''Agent Q''),
                  h_text = msg_text m \<rparr>"
    by (auto simp: getFormattedHistory_def Let_def)
  from m have "m \<in> set ?rel"
    by (auto simp: slice_last_def dest: in_set_dropD split: if_splits)
  then have "m \<in> set msgs" "\<not> msg_isTokenized m" "msg_text m \<noteq> []" by simp_all
  moreover have "h_text e = msg_text m" "h_sender e = ''user'' \<longleftrightarrow> msg_userId m = uid"
    by (simp_all add: e)
  ultimately show ?thesis by blast
qed

text \<open>
  C10. The history \<open>getFormattedHistory\<close> builds with \<open>maxTurns = 10\<close> has at
  most 10 entries; they are, in order, the last 10 (or all, if fewer) of the messages
  that are not tokenized and have a non-empty text; each entry carries the text of its
  message and the sender \<open>user\<close> exactly when the message's user id is the current
  user's, \<open>Agent Q\<close> otherwise; so no tokenized message appears in it. Whenever the
  handler calls the agent helper, the history it passes is this one, built from the
  decoded chat, or the empty history for a follow-up.
\<close>

theorem C10_history_context:
  "length (getFormattedHistory msgs uid 10) \<le> 10
   \<and> (\<exists>older recent.
         filter (\<lambda>m. \<not> msg_isTokenized m \<and> msg_text m \<noteq> []) msgs = older @ recent
       \<and> length recent = min 10 (length (filter (\<lambda>m. \<not> msg_isTokenized m \<and> msg_text m \<noteq> []) msgs))
       \<and> getFormattedHistory msgs uid 10
           = map (\<lambda>m. \<lparr> h_sender = (if msg_userId m = uid then ''user'' else ''Agent Q''),
                         h_text = msg_text m \<rparr>) recent)
   \<and> (\<forall>e \<in> set (getFormattedHistory msgs uid 10).
         \<exists>m \<in> set msgs. \<not> msg_isTokenized m \<and> msg_text m \<noteq> [] \<and> h_text e = msg_text m
           \<and> (h_sender e = ''user'' \<longleftrightarrow> msg_userId m = uid))
   \<and> (handleUserMessage dict env s = (Asked q t h, s') \<longrightarrow>
         (t = Followup \<and> h = [])
       \<or> (\<exists>userId. st_userId s = Some userId
            \<and> h = getFormattedHistory (map (decodeMessage dict) (st_chat s)) userId 10))"
proof (intro conjI)
  let ?rel = "filter (\<lambda>m. \<not> msg_isTokenized m \<and> msg_text m \<noteq> []) msgs"
  show "length (getFormattedHistory msgs uid 10) \<le> 10"
    by (simp add: getFormattedHistory_def slice_last_def)
  have "?rel = take (length ?rel - 10) ?rel @ drop (length ?rel - 10) ?rel" by simp
  moreover have "length (drop (length ?rel - 10) ?rel) = min 10 (length ?rel)" by simp
  moreover have "getFormattedHistory msgs uid 10
           = map (\<lambda>m. \<lparr> h_sender = (if msg_userId m = uid then ''user'' else ''Agent Q''),
                         h_text = msg_text m \<rparr>) (drop (length ?rel - 10) ?rel)"
    by (simp add: getFormattedHistory_def slice_last_def)
  ultimately show "\<exists>older recent.
         ?rel = older @ recent
       \<and> length recent = min 10 (length ?rel)
       \<and> getFormattedHistory msgs uid 10
           = map (\<lambda>m. \<lparr> h_sender = (if msg_userId m = uid then ''user'' else ''Agent Q''),
                         h_text = msg_text m \<rparr>) recent"
    by blast
  show "\<forall>e \<in> set (getFormattedHistory msgs uid 10).
         \<exists>m \<in> set msgs. \<not> msg_isTokenized m \<and> msg_text m \<noteq> [] \<and> h_text e = msg_text m
           \<and> (h_sender e = ''user'' \<longleftrightarrow> msg_userId m = uid)"
    using getFormattedHistory_entries by blast
  show "handleUserMessage dict env s = (Asked q t h, s') \<longrightarrow>
         (t = Followup \<and> h = [])
       \<or> (\<exists>userId. st_userId s = Some userId
            \<and> h = getFormattedHistory (map (decodeMessage dict) (st_chat s)) userId 10)"
    using handle_asked_history by blast
qed

text \<open>
  Of four messages, one tokenized and one with an empty text, the history keeps the
  other two.
\<close>

theorem C10_history_context_witness:
  "getFormattedHistory demo_messages ''u1'' 10
     = [\<lparr> h_sender = ''user'', h_text = ''hi'' \<rparr>,
        \<lparr> h_sender = ''Agent Q'', h_text = ''Agent Q: hello'' \<rparr>]
   \<and> length (getFormattedHistory demo_messages ''u1'' 10) \<le> 10
   \<and> (\<exists>m \<in> set demo_messages. \<not> msg_isTokenized m \<and> msg_text m \<noteq> [] \<and> ''hi'' = msg_text m
           \<and> msg_userId m = ''u1'')
   \<and> fst (handleUserMessage defaultTokenDictionary demo_handler_env (idle_session ''good morning''))
       = Asked ''good morning'' Chat
           (getFormattedHistory (map (decodeMessage defaultTokenDictionary)
              (st_chat (idle_session ''good morning''))) ''u1'' 10)"
proof -
  have v: "getFormattedHistory demo_messages ''u1'' 10
     = [\<lparr> h_sender = ''user'', h_text = ''hi'' \<rparr>,
        \<lparr> h_sender = ''Agent Q'', h_text = ''Agent Q: hello'' \<rparr>]"
    by code_simp
  note inst = C10_history_context [of demo_messages "''u1''" defaultTokenDictionary
      demo_handler_env "idle_session ''good morning''" "''good morning''" Chat
      "getFormattedHistory (map (decodeMessage defaultTokenDictionary)
              (st_chat (idle_session ''good morning''))) ''u1'' 10"
      "snd (handleUserMessage defaultTokenDictionary demo_handler_env (idle_session ''good morning''))"]
  have f: "fst (handleUserMessage defaultTokenDictionary demo_handler_env (idle_session ''good morning''))
       = Asked ''good morning'' Chat
           (getFormattedHistory (map (decodeMessage defaultTokenDictionary)
              (st_chat (idle_session ''good morning''))) ''u1'' 10)"
    by code_simp
  have mem: "\<lparr> h_sender = ''user'', h_text = ''hi'' \<rparr> \<in> set (getFormattedHistory demo_messages ''u1'' 10)"
    by (simp add: v)
  from inst mem have "\<exists>m \<in> set demo_messages. \<not> msg_isTokenized m \<and> msg_text m \<noteq> []
       \<and> h_text \<lparr> h_sender = ''user'', h_text = ''hi'' \<rparr> = msg_text m
       \<and> (h_sender \<lparr> h_sender = ''user'', h_text = ''hi'' \<rparr> = ''user'' \<longleftrightarrow> msg_userId m = ''u1'')"
    by blast
  then have e: "\<exists>m \<in> set demo_messages. \<not> msg_isTokenized m \<and> msg_text m \<noteq> [] \<and> ''hi'' = msg_text m
           \<and> msg_userId m = ''u1''"
    by simp
  from inst have l: "length (getFormattedHistory demo_messages ''u1'' 10) \<le> 10" by blast
  from v l e f show ?thesis by blast
qed

section \<open>Properties of the \<open>/remindme\<close> command\<close>

lemma match_message_closed:
  assumes "msg \<noteq> []" "list_all (\<lambda>c. \<not> isLineTerminator c) msg"
  shows "match_message (msg @ [dquote]) = Some msg"
proof -
  have "takeWhile (\<lambda>c. \<not> isLineTerminator c) (msg @ [dquote]) = msg @ [dquote]"
    using assms(2) by (simp add: list_all_iff isLineTerminator_def dquote_def)
  with assms(1) show ?thesis
    by (simp add: match_message_def)
qed

lemma match_here_wellformed:
  assumes "ds \<noteq> []" "list_all isDigit ds" "u = CHR ''m'' \<or> u = CHR ''h''"
    "msg \<noteq> []" "list_all (\<lambda>c. \<not> isLineTerminator c) msg"
  shows "match_here (''remindme '' @ ds @ [u] @ [CHR '' '', dquote] @ msg @ [dquote])
           = Some (ds, u, msg)"
proof -
  have nd: "\<not> isDigit u" using assms(3) by (auto simp: isDigit_def)
  have tw: "takeWhile isDigit (ds @ u # CHR '' '' # dquote # msg @ [dquote]) = ds"
    using assms(2) nd by (simp add: list_all_iff)
  have dw: "dropWhile isDigit (ds @ u # CHR '' '' # dquote # msg @ [dquote])
             = u # CHR '' '' # dquote # msg @ [dquote]"
    using assms(2) nd by (simp add: list_all_iff)
  have lower: "toLowerCase ''remindme '' = ''remindme ''"
    by (simp add: toLowerCase_def toLowerCase_char_def)
  have u: "toLowerCase_char u \<in> set ''mh''"
    using assms(3) by (auto simp: toLowerCase_char_def)
  show ?thesis
    using assms(1) u
    by (simp add: match_here_def lower tw dw match_message_closed [OF assms(4,5)])
qed

lemma match_remindme_wellformed:
  assumes "ds \<noteq> []" "list_all isDigit ds" "u = CHR ''m'' \<or> u = CHR ''h''"
    "msg \<noteq> []" "list_all (\<lambda>c. \<not> isLineTerminator c) msg"
  shows "match_remindme (remindme_command ds u msg) = Some (ds, u, msg)"
proof -
  define args where "args = ds @ [u] @ [CHR '' '', dquote] @ msg @ [dquote]"
  define tail where "tail = ''emindme '' @ args"
  have here: "match_here (CHR ''r'' # tail) = Some (ds, u, msg)"
    using match_here_wellformed [OF assms] by (simp add: tail_def args_def)
  have cmd: "remindme_command ds u msg = CHR ''/'' # CHR ''r'' # tail"
    by (simp add: remindme_command_def tail_def args_def)
  have first: "match_here (CHR ''/'' # CHR ''r'' # tail) = None"
    by (simp add: match_here_def tail_def toLowerCase_def toLowerCase_char_def)
  have "match_remindme (CHR ''/'' # CHR ''r'' # tail) = match_remindme (CHR ''r'' # tail)"
    by (simp only: match_remindme.simps first option.case)
  also have "\<dots> = Some (ds, u, msg)"
    by (simp only: match_remindme.simps here option.case)
  finally show ?thesis by (simp only: cmd)
qed

lemma match_message_Some:
  assumes "match_message r = Some msg"
  shows "\<exists>rest. r = msg @ [dquote] @ rest \<and> msg \<noteq> [] \<and> list_all (\<lambda>c. \<not> isLineTerminator c) msg"
proof -
  let ?body = "takeWhile (\<lambda>c. \<not> isLineTerminator c) r"
  from assms obtain q pre where d: "dropWhile (\<lambda>c. c \<noteq> dquote) (rev ?body) = q # pre"
    and pre: "pre \<noteq> []" and msg: "msg = rev pre"
    by (auto simp: match_message_def Let_def split: list.splits if_splits)
  have q: "q = dquote"
    using hd_dropWhile [of "\<lambda>c. c \<noteq> dquote" "rev ?body"] d by simp
  have "rev ?body = takeWhile (\<lambda>c. c \<noteq> dquote) (rev ?body) @ dquote # pre"
    using takeWhile_dropWhile_id [of "\<lambda>c. c \<noteq> dquote" "rev ?body"] d q by simp
  then have "rev (rev ?body) = rev (takeWhile (\<lambda>c. c \<noteq> dquote) (rev ?body) @ dquote # pre)"
    by simp
  then have body: "?body = msg @ [dquote] @ rev (takeWhile (\<lambda>c. c \<noteq> dquote) (rev ?body))"
    by (simp add: msg)
  have r: "r = ?body @ dropWhile (\<lambda>c. \<not> isLineTerminator c) r"
    by simp
  have "list_all (\<lambda>c. \<not> isLineTerminator c) ?body"
    by (auto simp: list_all_iff dest: set_takeWhileD)
  then have "list_all (\<lambda>c. \<not> isLineTerminator c) msg"
    by (subst (asm) body) simp
  moreover have "r = msg @ [dquote] @ (rev (takeWhile (\<lambda>c. c \<noteq> dquote) (rev ?body))
                     @ dropWhile (\<lambda>c. \<not> isLineTerminator c) r)"
    by (subst r, subst body) simp
  ultimately show ?thesis using pre msg by blast
qed

lemma match_here_Some:
  assumes "match_here s = Some (ds, u, msg)"
  shows "\<exists>kw rest. s = kw @ ds @ [u] @ [CHR '' '', dquote] @ msg @ [dquote] @ rest
      \<and> toLowerCase kw = ''remindme ''
      \<and> ds \<noteq> [] \<and> list_all isDigit ds
      \<and> toLowerCase_char u \<in> set ''mh''
      \<and> msg \<noteq> [] \<and> list_all (\<lambda>c. \<not> isLineTerminator c) msg"
proof -
  from assms have kw: "toLowerCase (take 9 s) = ''remindme ''"
    by (simp add: match_here_def split: if_splits)
  from assms kw obtain r2 where
    ds: "ds = takeWhile isDigit (drop 9 s)" "ds \<noteq> []" and
    r1: "dropWhile isDigit (drop 9 s) = u # r2" and
    u: "toLowerCase_char u \<in> set ''mh''" and
    sp: "take 2 r2 = [CHR '' '', dquote]" and
    mm: "match_message (drop 2 r2) = Some msg"
    by (auto simp: match_here_def Let_def split: if_splits list.splits option.splits)
  from match_message_Some [OF mm] obtain rest where
    rest: "drop 2 r2 = msg @ [dquote] @ rest" and msg: "msg \<noteq> []"
      "list_all (\<lambda>c. \<not> isLineTerminator c) msg" by blast
  have r2: "r2 = [CHR '' '', dquote] @ msg @ [dquote] @ rest"
    using append_take_drop_id [of 2 r2] sp rest by simp
  have "drop 9 s = ds @ u # r2"
    using takeWhile_dropWhile_id [of isDigit "drop 9 s"] ds(1) r1 by simp
  then have "s = take 9 s @ ds @ [u] @ [CHR '' '', dquote] @ msg @ [dquote] @ rest"
    using append_take_drop_id [of 9 s] r2 by simp
  moreover have "list_all isDigit ds"
    unfolding ds(1) by (auto simp: list_all_iff dest: set_takeWhileD)
  ultimately show ?thesis using kw ds(2) u msg by blast
qed

lemma match_remindme_Some:
  "match_remindme q = Some r \<Longrightarrow> \<exists>pre suf. q = pre @ suf \<and> match_here suf = Some r"
proof (induction q)
  case Nil
  then show ?case by simp
next
  case (Cons c cs)
  show ?case
  proof (cases "match_here (c # cs)")
    case (Some m)
    with Cons.prems have "match_here (c # cs) = Some r" by simp
    then show ?thesis by (intro exI [of _ "[]"] exI [of _ "c # cs"]) simp
  next
    case None
    with Cons.prems have "match_remindme cs = Some r" by simp
    from Cons.IH [OF this] obtain pre suf where "cs = pre @ suf" "match_here suf = Some r" by blast
    then show ?thesis by (intro exI [of _ "c # pre"] exI [of _ suf]) simp
  qed
qed

lemma not_occurs_no_match:
  assumes "\<not> remindme_occurs q"
  shows "match_remindme q = None"
proof (rule ccontr)
  assume "match_remindme q \<noteq> None"
  then obtain ds u msg where "match_remindme q = Some (ds, u, msg)" by (cases "match_remindme q") auto
  from match_remindme_Some [OF this] obtain pre suf where
    q: "q = pre @ suf" and "match_here suf = Some (ds, u, msg)" by blast
  from match_here_Some [OF this(2)] q have "remindme_occurs q"
    unfolding remindme_occurs_def by blast
  with assms show False by simp
qed


lemma startsWith_take: "startsWith s p \<Longrightarrow> n \<le> length p \<Longrightarrow> take n s = take n p"
proof -
  assume "startsWith s p" and n: "n \<le> length p"
  then have p: "take (length p) s = p" by (simp only: startsWith_def)
  have "take n s = take n (take (length p) s)" using n by (simp add: min_def)
  with p show ?thesis by simp
qed

lemma startsWith_remindme_only:
  assumes "startsWith q ''/remindme''"
  shows "\<not> startsWith q ''/weather''" "\<not> startsWith q ''/crypto''"
proof -
  have r: "take 2 q = ''/r''"
    using startsWith_take [OF assms, of 2] by simp
  show "\<not> startsWith q ''/weather''"
  proof
    assume "startsWith q ''/weather''"
    from startsWith_take [OF this, of 2] r show False by simp
  qed
  show "\<not> startsWith q ''/crypto''"
  proof
    assume "startsWith q ''/crypto''"
    from startsWith_take [OF this, of 2] r show False by simp
  qed
qed

lemma askAgentQ_remindme:
  assumes "startsWith (toLowerCase q) ''/remindme''"
  shows "askAgentQ env q Command history db userId reminders =
     (case match_remindme q of
        Some (value, unit, msg) \<Rightarrow>
          if db \<and> truthy userId then
            (case env_addDoc_reminder env of
               Some new_id \<Rightarrow>
                 (Text_reply (''Agent Q: I'll remind you in '' @ value @ [unit] @ '': ''
                               @ [dquote] @ msg @ [dquote] @ ''.''),
                  reminders @ [\<lparr> rem_id = new_id,
                     rem_remindAt = env_now env
                       + (if unit = CHR ''m'' then parseInt value * 60000
                          else parseInt value * 3600000),
                     rem_message = msg \<rparr>])
             | None \<Rightarrow> (Text_reply ''Agent Q: Error setting reminder.'', reminders))
          else (usage_reply, reminders)
      | None \<Rightarrow> (usage_reply, reminders))"
  unfolding askAgentQ_def Let_def
  using assms startsWith_remindme_only [OF assms]
  by simp

lemma startsWith_command: "startsWith (toLowerCase (remindme_command ds u msg)) ''/remindme''"
  by (simp add: remindme_command_def startsWith_def toLowerCase_def toLowerCase_char_def)


lemma not_occurs_short: "length q < 15 \<Longrightarrow> \<not> remindme_occurs q"
proof
  assume len: "length q < 15" and "remindme_occurs q"
  then obtain pre kw ds u msg rest where
    q: "q = pre @ kw @ ds @ [u] @ [CHR '' '', dquote] @ msg @ [dquote] @ rest"
    and kw: "toLowerCase kw = ''remindme ''" and ne: "ds \<noteq> []" "msg \<noteq> []"
    unfolding remindme_occurs_def by blast
  from kw have "length (toLowerCase kw) = 9" by simp
  then have "length kw = 9" by (simp add: toLowerCase_def)
  moreover from ne have "1 \<le> length ds" "1 \<le> length msg"
    by (simp_all add: Suc_leI)
  ultimately have "15 \<le> length q"
    by (subst q) simp
  with len show False by simp
qed



section \<open>Properties of the reminder poll\<close>

lemma extends_refl: "extends s s"
  by (simp add: extends_def)

lemma extends_saveMessage: "extends s s' \<Longrightarrow> extends s (saveMessage ok c sender tok s')"
  by (auto simp: extends_def saveMessage_def Let_def)

lemma extends_update:
  "extends s s' \<Longrightarrow> extends s (s' \<lparr> st_reminders := r \<rparr>)"
  "extends s s' \<Longrightarrow> extends s (s' \<lparr> st_pendingAction := p \<rparr>)"
  "extends s s' \<Longrightarrow> extends s (s' \<lparr> st_isBotThinking := b \<rparr>)"
  "extends s s' \<Longrightarrow> extends s (s' \<lparr> st_currentMessage := m \<rparr>)"
  "extends s s' \<Longrightarrow> extends s (s' \<lparr> st_error := e \<rparr>)"
  by (simp_all add: extends_def)

lemmas extends_intros = extends_saveMessage extends_update

lemma followup_extends:
  assumes "extends z s"
  shows "extends z (snd (followup_callback env m s))"
proof -
  obtain res rems where r: "askAgentQ (env_agent env) m Followup [] False None (st_reminders s) = (res, rems)"
    by (cases "askAgentQ (env_agent env) m Followup [] False None (st_reminders s)")
  show ?thesis
  proof (cases res)
    case (Text_reply t)
    then show ?thesis by (simp add: followup_callback_def r extends_intros assms)
  next
    case (Intent_reply k a)
    then show ?thesis by (simp add: followup_callback_def r extends_intros assms)
  next
    case (Action_reply k d)
    then show ?thesis by (cases k) (simp_all add: followup_callback_def r extends_intros assms)
  qed
qed

lemma dispatch_extends:
  assumes "extends z s"
  shows "extends z (snd (dispatch_callback env msgs u m t s))"
proof -
  obtain res rems where r: "askAgentQ (env_agent env) m t (getFormattedHistory msgs u 10)
       (st_dbInstance s) (Some u) (st_reminders s) = (res, rems)"
    by (cases "askAgentQ (env_agent env) m t (getFormattedHistory msgs u 10)
       (st_dbInstance s) (Some u) (st_reminders s)")
  show ?thesis
  proof (cases res)
    case (Text_reply t)
    then show ?thesis by (simp add: dispatch_callback_def r Let_def extends_intros assms)
  next
    case (Intent_reply k a)
    then show ?thesis by (cases k) (simp_all add: dispatch_callback_def r Let_def extends_intros assms)
  next
    case (Action_reply k d)
    then show ?thesis by (cases k) (simp_all add: dispatch_callback_def r Let_def extends_intros assms)
  qed
qed

lemma pre_extends:
  "extends s (s\<lparr>st_currentMessage := [], st_error := None, st_isBotThinking := True\<rparr>)"
  "extends s (saveMessage ok c u tok (s\<lparr>st_currentMessage := [], st_error := None\<rparr>)
                 \<lparr>st_isBotThinking := True\<rparr>)"
  "extends s (saveMessage ok c u tok (s\<lparr>st_currentMessage := [], st_error := None\<rparr>))"
  by (intro extends_intros extends_refl)+


lemma handle_extends: "extends s (snd (handleUserMessage dict env s))"
proof (cases "st_userId s")
  case None
  then show ?thesis by (simp add: handleUserMessage_def extends_refl)
next
  case (Some u)
  show ?thesis
  proof (cases "trim (st_currentMessage s) = [] \<or> u = []")
    case True
    with Some show ?thesis by (auto simp: handleUserMessage_def extends_refl)
  next
    case False
    show ?thesis
    proof (cases "lookupToken (toLowerCase (trim (st_currentMessage s))) dict")
      case (Some i)
      with \<open>st_userId s = Some u\<close> False show ?thesis
        by (simp add: handleUserMessage_def Let_def pre_extends)
    next
      case None
      with \<open>st_userId s = Some u\<close> False show ?thesis
        by (simp add: handleUserMessage_def Let_def
              followup_extends [OF pre_extends(1)] dispatch_extends [OF pre_extends(2)])
    qed
  qed
qed

lemma poll_inv_extends: "poll_inv s \<Longrightarrow> extends s s' \<Longrightarrow> poll_inv s'"
  by (auto simp: poll_inv_def extends_def pending_ids_def)

lemma poll_callback_inv: "poll_inv s \<Longrightarrow> poll_inv (poll_callback now s r)"
  by (auto simp: poll_inv_def poll_callback_def pending_ids_def)

lemma foldl_poll_callback_inv: "poll_inv s \<Longrightarrow> poll_inv (foldl (poll_callback now) s rs)"
  by (induction rs arbitrary: s) (simp_all add: poll_callback_inv)

lemma poll_inv_polls: "poll_inv (s \<lparr> st_polls := p \<rparr>) = poll_inv s"
  by (simp add: poll_inv_def pending_ids_def)

lemma poll_inv_error: "poll_inv (s \<lparr> st_error := e \<rparr>) = poll_inv s"
  by (simp add: poll_inv_def pending_ids_def)

lemma botUserId_nonempty: "botUserId \<noteq> []"
  by (simp add: botUserId_def)

lemma saveMessage_reminder:
  "st_dbInstance s \<Longrightarrow>
   saveMessage True (Plain_text (reminder_text m)) botUserId False s
     = s \<lparr> st_chat := st_chat s @ [reminder_doc m] \<rparr>"
  by (simp add: saveMessage_def reminder_doc_def botUserId_nonempty)

lemma filter_update_stage:
  assumes "k < length ts" "task_stage (ts ! k) = Awaiting_save"
  shows "\<exists>A B. map task_id (filter (\<lambda>t. task_stage t = Awaiting_save) ts) = A @ [task_id (ts ! k)] @ B
     \<and> map task_id (filter (\<lambda>t. task_stage t = Awaiting_save)
             (ts [k := (ts ! k) \<lparr> task_stage := Awaiting_delete \<rparr>])) = A @ B"
proof -
  let ?P = "\<lambda>t. task_stage t = Awaiting_save"
  have ts: "ts = take k ts @ (ts ! k) # drop (Suc k) ts"
    using assms(1) by (simp add: id_take_nth_drop)
  have upd: "ts [k := (ts ! k) \<lparr> task_stage := Awaiting_delete \<rparr>]
      = take k ts @ ((ts ! k) \<lparr> task_stage := Awaiting_delete \<rparr>) # drop (Suc k) ts"
    using assms(1) by (simp add: upd_conv_take_nth_drop)
  have 1: "map task_id (filter ?P ts)
      = map task_id (filter ?P (take k ts)) @ [task_id (ts ! k)] @ map task_id (filter ?P (drop (Suc k) ts))"
    by (subst ts) (simp add: assms(2))
  have 2: "map task_id (filter ?P (ts [k := (ts ! k) \<lparr> task_stage := Awaiting_delete \<rparr>]))
      = map task_id (filter ?P (take k ts)) @ map task_id (filter ?P (drop (Suc k) ts))"
    by (subst upd) simp
  from 1 2 show ?thesis by blast
qed

lemma set_task_update:
  "k < length ts \<Longrightarrow> task_id ` set (ts [k := (ts ! k) \<lparr> task_stage := st \<rparr>]) = task_id ` set ts"
proof -
  assume k: "k < length ts"
  have "map task_id (ts [k := (ts ! k) \<lparr> task_stage := st \<rparr>]) = map task_id ts"
    using k by (simp add: map_update list_update_same_conv)
  then have "set (map task_id (ts [k := (ts ! k) \<lparr> task_stage := st \<rparr>])) = set (map task_id ts)"
    by simp
  then show ?thesis by simp
qed

lemma poll_inv_parts:
  "poll_inv s \<longleftrightarrow>
     distinct (map fst (st_delivered s) @ pending_ids s)
     \<and> fst ` set (st_delivered s) \<subseteq> st_firedReminderIds s
     \<and> task_id ` set (st_tasks s) \<subseteq> st_firedReminderIds s
     \<and> (\<forall>m \<in> snd ` set (st_delivered s). reminder_doc m \<in> set (st_chat s))"
  by (auto simp: poll_inv_def)

lemma save_done_inv:
  assumes "poll_inv s" "k < length (st_tasks s)" "task_stage (st_tasks s ! k) = Awaiting_save"
  shows "poll_inv (step dict s (Save_done k ok))"
proof -
  let ?t = "st_tasks s ! k"
  let ?ts = "(st_tasks s) [k := ?t \<lparr> task_stage := Awaiting_delete \<rparr>]"
  let ?s' = "step dict s (Save_done k ok)"
  from filter_update_stage [OF assms(2,3)] obtain A B where
    A: "pending_ids s = A @ [task_id ?t] @ B" and
    B: "map task_id (filter (\<lambda>t. task_stage t = Awaiting_save) ?ts) = A @ B"
    by (auto simp: pending_ids_def)
  have ids: "task_id ` set ?ts = task_id ` set (st_tasks s)"
    by (rule set_task_update [OF assms(2)])
  have mem: "task_id ?t \<in> task_id ` set (st_tasks s)"
    using assms(2) by simp
  from assms(1) have inv:
    "distinct (map fst (st_delivered s) @ pending_ids s)"
    "fst ` set (st_delivered s) \<subseteq> st_firedReminderIds s"
    "task_id ` set (st_tasks s) \<subseteq> st_firedReminderIds s"
    "\<forall>m \<in> snd ` set (st_delivered s). reminder_doc m \<in> set (st_chat s)"
    by (simp_all add: poll_inv_parts)
  have tasks': "st_tasks ?s' = ?ts" and fired': "st_firedReminderIds ?s' = st_firedReminderIds s"
    using assms(2,3) by (simp_all add: step_def Let_def saveMessage_def)
  have pend': "pending_ids ?s' = A @ B"
    using B by (simp add: pending_ids_def tasks')
  show ?thesis
  proof (cases "st_dbInstance s \<and> ok")
    case True
    then have del': "st_delivered ?s' = st_delivered s @ [(task_id ?t, task_message ?t)]"
      and chat': "st_chat ?s' = st_chat s @ [reminder_doc (task_message ?t)]"
      using assms(2,3) by (simp_all add: step_def Let_def saveMessage_reminder)
    have a: "distinct (map fst (st_delivered ?s') @ pending_ids ?s')"
      using inv(1) unfolding del' pend' A by auto
    have b: "fst ` set (st_delivered ?s') \<subseteq> st_firedReminderIds ?s'"
      using inv(2,3) mem unfolding del' fired' by auto
    have c: "task_id ` set (st_tasks ?s') \<subseteq> st_firedReminderIds ?s'"
      using inv(3) unfolding tasks' fired' ids by simp
    have d: "\<forall>m \<in> snd ` set (st_delivered ?s'). reminder_doc m \<in> set (st_chat ?s')"
      using inv(4) unfolding del' chat' by auto
    from a b c d show ?thesis by (simp only: poll_inv_parts)
  next
    case False
    then have del': "st_delivered ?s' = st_delivered s"
      and chat': "st_chat ?s' = st_chat s"
      using assms(2,3) by (auto simp: step_def Let_def saveMessage_def)
    have a: "distinct (map fst (st_delivered ?s') @ pending_ids ?s')"
      using inv(1) unfolding del' pend' A by auto
    have b: "fst ` set (st_delivered ?s') \<subseteq> st_firedReminderIds ?s'"
      using inv(2) unfolding del' fired' by simp
    have c: "task_id ` set (st_tasks ?s') \<subseteq> st_firedReminderIds ?s'"
      using inv(3) unfolding tasks' fired' ids by simp
    have d: "\<forall>m \<in> snd ` set (st_delivered ?s'). reminder_doc m \<in> set (st_chat ?s')"
      using inv(4) unfolding del' chat' by simp
    from a b c d show ?thesis by (simp only: poll_inv_parts)
  qed
qed

lemma filter_remove_nth:
  assumes "k < length ts" "\<not> P (ts ! k)"
  shows "filter P (remove_nth k ts) = filter P ts"
proof -
  have "ts = take k ts @ (ts ! k) # drop (Suc k) ts"
    using assms(1) by (simp add: id_take_nth_drop)
  then have "filter P ts = filter P (take k ts) @ filter P (drop (Suc k) ts)"
    using assms(2) by (metis filter.simps(2) filter_append)
  then show ?thesis by (simp add: remove_nth_def)
qed

lemma set_remove_nth: "set (remove_nth k ts) \<subseteq> set ts"
  by (auto simp: remove_nth_def dest: in_set_takeD in_set_dropD)

lemma delete_done_inv:
  assumes "poll_inv s" "k < length (st_tasks s)" "task_stage (st_tasks s ! k) = Awaiting_delete"
  shows "poll_inv (step dict s (Delete_done k ok))"
proof -
  let ?s' = "step dict s (Delete_done k ok)"
  have f: "filter (\<lambda>t. task_stage t = Awaiting_save) (remove_nth k (st_tasks s))
      = filter (\<lambda>t. task_stage t = Awaiting_save) (st_tasks s)"
    using assms(2,3) by (intro filter_remove_nth) simp_all
  have sub: "task_id ` set (remove_nth k (st_tasks s)) \<subseteq> task_id ` set (st_tasks s)"
    using set_remove_nth [of k "st_tasks s"] by blast
  from assms(1) have inv:
    "distinct (map fst (st_delivered s) @ pending_ids s)"
    "fst ` set (st_delivered s) \<subseteq> st_firedReminderIds s"
    "task_id ` set (st_tasks s) \<subseteq> st_firedReminderIds s"
    "\<forall>m \<in> snd ` set (st_delivered s). reminder_doc m \<in> set (st_chat s)"
    by (simp_all add: poll_inv_parts)
  have st: "st_tasks ?s' = remove_nth k (st_tasks s)"
    "st_firedReminderIds ?s' = st_firedReminderIds s"
    "st_delivered ?s' = st_delivered s" "st_chat ?s' = st_chat s"
    using assms(2,3) by (simp_all add: step_def Let_def)
  have pend': "pending_ids ?s' = pending_ids s"
    by (simp add: pending_ids_def st f)
  have c: "task_id ` set (st_tasks ?s') \<subseteq> st_firedReminderIds ?s'"
    using inv(3) sub unfolding st by blast
  from inv c show ?thesis
    by (simp only: poll_inv_parts st(2,3,4) pend')
qed

lemma step_inv: "poll_inv s \<Longrightarrow> poll_inv (step dict s e)"
proof (cases e)
  case (Submit input env)
  assume inv: "poll_inv s"
  have "extends s (s \<lparr> st_currentMessage := input \<rparr>)"
    by (intro extends_intros extends_refl)
  from inv this have "poll_inv (s \<lparr> st_currentMessage := input \<rparr>)" by (rule poll_inv_extends)
  from this handle_extends have "poll_inv (snd (handleUserMessage dict env (s \<lparr> st_currentMessage := input \<rparr>)))"
    by (rule poll_inv_extends)
  with Submit show ?thesis by (simp add: step_def)
next
  case (Poll_query ok)
  assume "poll_inv s"
  with Poll_query show ?thesis by (simp add: step_def poll_inv_polls poll_inv_error)
next
  case (Poll_forEach k now)
  assume "poll_inv s"
  with Poll_forEach show ?thesis
    by (simp add: step_def foldl_poll_callback_inv poll_inv_polls)
next
  case (Save_done k ok)
  assume inv: "poll_inv s"
  show ?thesis
  proof (cases "k < length (st_tasks s) \<and> task_stage (st_tasks s ! k) = Awaiting_save")
    case True
    with inv Save_done show ?thesis by (simp add: save_done_inv)
  next
    case False
    with inv Save_done show ?thesis by (auto simp: step_def)
  qed
next
  case (Delete_done k ok)
  assume inv: "poll_inv s"
  show ?thesis
  proof (cases "k < length (st_tasks s) \<and> task_stage (st_tasks s ! k) = Awaiting_delete")
    case True
    with inv Delete_done show ?thesis by (simp add: delete_done_inv)
  next
    case False
    with inv Delete_done show ?thesis by (auto simp: step_def)
  qed
qed

lemma run_inv: "poll_inv s \<Longrightarrow> poll_inv (run dict s events)"
  unfolding run_def by (induction events arbitrary: s) (simp_all add: step_inv)

lemma started_inv: "started s \<Longrightarrow> poll_inv s"
  by (simp add: started_def poll_inv_def pending_ids_def)



end
